theory Spec2Isabelle
  imports Complex_Main "HOL-Library.Multiset" "HOL-Library.Sublist" "HOL-Library.Log_Nat"
begin

section \<open>JavaScript values used by the catalog page\<close>

text \<open>
  The component \<^verbatim>\<open>components/catalog-page.tsx\<close> is TypeScript; at run time its data are
  JavaScript values. A number is an IEEE double: a finite value (the real number it
  denotes), \<open>NaN\<close> or one of the two infinities; the sign of zero is not modelled. A field
  read from a product row is absent (\<^verbatim>\<open>undefined\<close>), a number or a string.
\<close>

datatype js_number = Finite real | NaN | PosInfinity | NegInfinity

datatype js_value = JUndefined | JNumber js_number | JString string

fun isNaN :: "js_number \<Rightarrow> bool" where
  "isNaN NaN = True"
| "isNaN _ = False"

text \<open>\<^verbatim>\<open>a < b\<close> on numbers: false whenever an operand is \<open>NaN\<close>.\<close>

fun js_less :: "js_number \<Rightarrow> js_number \<Rightarrow> bool" where
  "js_less NaN _ = False"
| "js_less _ NaN = False"
| "js_less (Finite a) (Finite b) = (a < b)"
| "js_less (Finite a) PosInfinity = True"
| "js_less (Finite a) NegInfinity = False"
| "js_less PosInfinity _ = False"
| "js_less NegInfinity NegInfinity = False"
| "js_less NegInfinity _ = True"

definition js_greater :: "js_number \<Rightarrow> js_number \<Rightarrow> bool" where
  "js_greater a b = js_less b a"

text \<open>
  Arithmetic computes the exact result and rounds it to the nearest double, a tie going to
  the even significand. A double has 53 significant bits and a least exponent of -1022
  (below it the spacing stays \<open>2 powi - 1074\<close>); a result that rounds to \<open>2 ^ 1024\<close> or
  beyond is an infinity.
\<close>

definition round_half_even :: "real \<Rightarrow> int" where
  "round_half_even q =
     (let f = \<lfloor>q\<rfloor>; d = q - of_int f
      in if d < 1 / 2 \<or> (d = 1 / 2 \<and> even f) then f else f + 1)"

definition round_double :: "real \<Rightarrow> js_number" where
  "round_double x =
     (if x = 0 then Finite 0
      else (let e = max \<lfloor>log 2 \<bar>x\<bar>\<rfloor> (- 1022);
                u = 2 powi (e - 52);
                v = of_int (round_half_even (\<bar>x\<bar> / u)) * u
            in if 2 ^ 1024 \<le> v then (if 0 < x then PosInfinity else NegInfinity)
               else Finite (sgn x * v)))"

fun js_sub :: "js_number \<Rightarrow> js_number \<Rightarrow> js_number" where
  "js_sub NaN _ = NaN"
| "js_sub _ NaN = NaN"
| "js_sub (Finite a) (Finite b) = round_double (a - b)"
| "js_sub (Finite a) PosInfinity = NegInfinity"
| "js_sub (Finite a) NegInfinity = PosInfinity"
| "js_sub PosInfinity PosInfinity = NaN"
| "js_sub PosInfinity _ = PosInfinity"
| "js_sub NegInfinity NegInfinity = NaN"
| "js_sub NegInfinity _ = NegInfinity"

fun js_mul :: "js_number \<Rightarrow> js_number \<Rightarrow> js_number" where
  "js_mul NaN _ = NaN"
| "js_mul _ NaN = NaN"
| "js_mul (Finite a) (Finite b) = round_double (a * b)"
| "js_mul (Finite a) PosInfinity =
     (if a = 0 then NaN else if 0 < a then PosInfinity else NegInfinity)"
| "js_mul (Finite a) NegInfinity =
     (if a = 0 then NaN else if 0 < a then NegInfinity else PosInfinity)"
| "js_mul PosInfinity (Finite b) =
     (if b = 0 then NaN else if 0 < b then PosInfinity else NegInfinity)"
| "js_mul NegInfinity (Finite b) =
     (if b = 0 then NaN else if 0 < b then NegInfinity else PosInfinity)"
| "js_mul PosInfinity PosInfinity = PosInfinity"
| "js_mul PosInfinity NegInfinity = NegInfinity"
| "js_mul NegInfinity PosInfinity = NegInfinity"
| "js_mul NegInfinity NegInfinity = PosInfinity"

subsection \<open>Strings\<close>

text \<open>
  A JavaScript string is a sequence of UTF-16 code units. The model keeps the code units
  below 256 (Latin-1, which covers the Spanish text of the catalog): a \<^typ>\<open>char\<close> is read
  as the code unit with the same number.

  \<^verbatim>\<open>\s\<close> and \<^verbatim>\<open>trim\<close> use the same set of white space: tab, line feed, vertical tab, form
  feed, carriage return, space and the no-break space U+00A0.
\<close>

definition is_whitespace :: "char \<Rightarrow> bool" where
  "is_whitespace c =
     (let n = (of_char c :: nat) in (9 \<le> n \<and> n \<le> 13) \<or> n = 32 \<or> n = 160)"

definition lower_char :: "char \<Rightarrow> char" where
  "lower_char c =
     (let n = (of_char c :: nat)
      in if (65 \<le> n \<and> n \<le> 90) \<or> (192 \<le> n \<and> n \<le> 222 \<and> n \<noteq> 215)
         then char_of (n + 32) else c)"

definition toLowerCase :: "string \<Rightarrow> string" where
  "toLowerCase s = map lower_char s"

definition trim :: "string \<Rightarrow> string" where
  "trim s = rev (dropWhile is_whitespace (rev (dropWhile is_whitespace s)))"

text \<open>
  \<^verbatim>\<open>s.split(/\s+/)\<close>: every maximal run of white space separates two pieces; a run at
  the start or at the end leaves an empty piece there, and the empty string splits into
  one empty piece.
\<close>

function split_from :: "string \<Rightarrow> string \<Rightarrow> string list" where
  "split_from cur [] = [rev cur]"
| "split_from cur (c # cs) =
     (if is_whitespace c then rev cur # split_from [] (dropWhile is_whitespace cs)
      else split_from (c # cur) cs)"
  by pat_completeness auto
termination
  by (relation "measure (\<lambda>(cur, s). length s)")
     (auto simp: length_dropWhile_le less_Suc_eq_le)

definition split_whitespace :: "string \<Rightarrow> string list" where
  "split_whitespace s = split_from [] s"

text \<open>\<^verbatim>\<open>word.startsWith(term)\<close> and \<^verbatim>\<open>text.includes(term)\<close> (written \<open>includes_str\<close>).\<close>

fun startsWith :: "string \<Rightarrow> string \<Rightarrow> bool" where
  "startsWith w [] = True"
| "startsWith [] (t # ts) = False"
| "startsWith (c # w) (t # ts) = (c = t \<and> startsWith w ts)"

fun includes_str :: "string \<Rightarrow> string \<Rightarrow> bool" where
  "includes_str [] t = (t = [])"
| "includes_str (c # s) t = (startsWith (c # s) t \<or> includes_str s t)"

text \<open>\<^verbatim>\<open>s.replace(/\$/g, "")\<close>, \<^verbatim>\<open>s.replace(/\./g, "")\<close> and \<^verbatim>\<open>s.replace(/[-/()]/g, " ")\<close>.\<close>

definition remove_char :: "char \<Rightarrow> string \<Rightarrow> string" where
  "remove_char d s = filter (\<lambda>c. c \<noteq> d) s"

definition is_name_punctuation :: "char \<Rightarrow> bool" where
  "is_name_punctuation c =
     (c = CHR ''-'' \<or> c = CHR ''/'' \<or> c = CHR ''('' \<or> c = CHR '')'')"

definition replace_name_punctuation :: "string \<Rightarrow> string" where
  "replace_name_punctuation s = map (\<lambda>c. if is_name_punctuation c then CHR '' '' else c) s"

text \<open>
  \<^verbatim>\<open>Number.parseInt(s, 10)\<close>: leading white space is skipped, one sign is read, then the
  longest run of decimal digits. With no digit the result is \<open>NaN\<close>; otherwise it is the
  double nearest to the integer that sign and digits spell.
\<close>

definition is_digit :: "char \<Rightarrow> bool" where
  "is_digit c = (let n = (of_char c :: nat) in 48 \<le> n \<and> n \<le> 57)"

definition digit_value :: "char \<Rightarrow> int" where
  "digit_value c = int (of_char c) - 48"

definition digits_value :: "string \<Rightarrow> int" where
  "digits_value ds = foldl (\<lambda>n c. 10 * n + digit_value c) 0 ds"

definition parseInt_mathInt :: "string \<Rightarrow> int option" where
  "parseInt_mathInt s =
     (let t = dropWhile is_whitespace s;
          neg = (t \<noteq> [] \<and> hd t = CHR ''-'');
          u = (if t \<noteq> [] \<and> (hd t = CHR ''-'' \<or> hd t = CHR ''+'') then tl t else t);
          ds = takeWhile is_digit u
      in if ds = [] then None
         else Some (if neg then - digits_value ds else digits_value ds))"

definition parseInt10 :: "string \<Rightarrow> js_number" where
  "parseInt10 s =
     (case parseInt_mathInt s of None \<Rightarrow> NaN | Some n \<Rightarrow> round_double (of_int n))"

section \<open>The price parser\<close>

text \<open>
  \<^verbatim>\<open>parsePriceString(priceStr: string | number)\<close>: a number is returned as it is, a falsy
  value (absent, or the empty string) gives 0, any other string loses every \<^verbatim>\<open>$\<close> and
  every \<^verbatim>\<open>.\<close>, is trimmed and read by \<^verbatim>\<open>parseInt\<close>, and \<open>NaN\<close> becomes 0.
\<close>

fun parsePriceString :: "js_value \<Rightarrow> js_number" where
  "parsePriceString (JNumber n) = n"
| "parsePriceString JUndefined = Finite 0"
| "parsePriceString (JString priceStr) =
     (if priceStr = [] then Finite 0
      else (let cleaned = trim (remove_char CHR ''.'' (remove_char CHR ''$'' priceStr));
                parsed = parseInt10 cleaned
            in if isNaN parsed then Finite 0 else parsed))"

section \<open>Products and the filter state\<close>

text \<open>
  Modelled from the spec: the type \<^verbatim>\<open>Product\<close> is declared in \<^verbatim>\<open>lib/google-sheets\<close>,
  which is not among the sources. Its fields are those of the specification's data model
  (identifier, SKU, display name, category, brand, game-level attribute, year attribute,
  image references, raw price field, stock quantity), under the names the page reads them
  by; the year field is written \<open>anio\<close> and \<^verbatim>\<open>id\<close> is written \<open>product_id\<close>. A text
  field is absent (\<open>None\<close>) or a string, as the guards \<^verbatim>\<open>p.sku && ...\<close> and
  \<^verbatim>\<open>(p.nombre || "")\<close> of the page allow, and the raw price \<^verbatim>\<open>precio3\<close> is such a text
  field. The stock is any value, since the page tests its type.
\<close>

record product =
  product_id :: "string option"
  sku :: "string option"
  nombre :: "string option"
  categoria :: "string option"
  marca :: "string option"
  nivelDeJuego :: "string option"
  anio :: "string option"
  precio3 :: "string option"
  stock :: js_value
  urlImagenes :: "string list option"

datatype PriceSortOrder = SortDefault | SortAsc | SortDesc

record filter_state =
  searchTerm :: string
  selectedCategory :: string
  selectedBrand :: string
  showOutOfStock :: bool
  priceSort :: PriceSortOrder

text \<open>The sentinel of both selects, \<^verbatim>\<open>"Todos"\<close> (the specification calls it "ALL").\<close>

definition Todos :: string where
  "Todos = ''Todos''"

text \<open>\<^verbatim>\<open>x || ""\<close> on a text field, and the field as the value handed to a function.\<close>

fun or_empty :: "string option \<Rightarrow> string" where
  "or_empty None = []"
| "or_empty (Some s) = s"

fun field_value :: "string option \<Rightarrow> js_value" where
  "field_value None = JUndefined"
| "field_value (Some s) = JString s"

text \<open>\<^verbatim>\<open>Boolean(x)\<close> on a text field: absent and empty are falsy.\<close>

fun truthy :: "string option \<Rightarrow> bool" where
  "truthy None = False"
| "truthy (Some s) = (s \<noteq> [])"

section \<open>The normalizer\<close>

text \<open>
  \<^verbatim>\<open>stock: typeof p.stock === "number" && !isNaN(p.stock) ? p.stock : 0\<close>, every other
  field copied by the spread.
\<close>

fun normalize_stock :: "js_value \<Rightarrow> js_value" where
  "normalize_stock (JNumber n) = (if \<not> isNaN n then JNumber n else JNumber (Finite 0))"
| "normalize_stock _ = JNumber (Finite 0)"

definition normalizeProducts :: "product list \<Rightarrow> product list" where
  "normalizeProducts productsData = map (\<lambda>p. p\<lparr>stock := normalize_stock (stock p)\<rparr>) productsData"

section \<open>The filter pipeline\<close>

text \<open>Stage 1: \<^verbatim>\<open>p.sku && p.sku.trim() !== ""\<close>.\<close>

definition validSku :: "product \<Rightarrow> bool" where
  "validSku p = (case sku p of None \<Rightarrow> False | Some s \<Rightarrow> s \<noteq> [] \<and> trim s \<noteq> [])"

definition skuFilter :: "product list \<Rightarrow> product list" where
  "skuFilter ps = filter validSku ps"

text \<open>Stage 2: a stock that is not a number counts as 0; the stage runs unless the flag is set.\<close>

fun stockNum :: "js_value \<Rightarrow> js_number" where
  "stockNum (JNumber n) = n"
| "stockNum _ = Finite 0"

definition inStock :: "product \<Rightarrow> bool" where
  "inStock p = js_greater (stockNum (stock p)) (Finite 0)"

definition stockFilter :: "bool \<Rightarrow> product list \<Rightarrow> product list" where
  "stockFilter showOut ps = (if \<not> showOut then filter inStock ps else ps)"

text \<open>Stages 3 and 4: exact match, unless the sentinel is selected.\<close>

definition categoryFilter :: "string \<Rightarrow> product list \<Rightarrow> product list" where
  "categoryFilter cat ps =
     (if cat \<noteq> Todos then filter (\<lambda>p. categoria p = Some cat) ps else ps)"

definition brandFilter :: "string \<Rightarrow> product list \<Rightarrow> product list" where
  "brandFilter brand ps =
     (if brand \<noteq> Todos then filter (\<lambda>p. marca p = Some brand) ps else ps)"

text \<open>Stage 5: the search; it runs when the search text is not the empty string.\<close>

definition nameWords :: "product \<Rightarrow> string list" where
  "nameWords p = split_whitespace (replace_name_punctuation (toLowerCase (or_empty (nombre p))))"

definition termMatches :: "product \<Rightarrow> string \<Rightarrow> bool" where
  "termMatches p term =
     (if includes_str (toLowerCase (or_empty (sku p))) term then True
      else if list_ex (\<lambda>word. startsWith word term) (nameWords p) then True
      else if includes_str (toLowerCase (or_empty (nivelDeJuego p))) term then True
      else if includes_str (toLowerCase (or_empty (anio p))) term then True
      else False)"

definition searchTerms :: "string \<Rightarrow> string list" where
  "searchTerms s = split_whitespace (trim (toLowerCase s))"

definition searchMatches :: "string \<Rightarrow> product \<Rightarrow> bool" where
  "searchMatches s p = list_all (termMatches p) (searchTerms s)"

definition searchFilter :: "string \<Rightarrow> product list \<Rightarrow> product list" where
  "searchFilter s ps = (if s \<noteq> [] then filter (searchMatches s) ps else ps)"

section \<open>The price sort\<close>

text \<open>
  \<^verbatim>\<open>getReferencePrice\<close>: the parsed \<^verbatim>\<open>precio3\<close>, times 2 when the cart's predicate
  \<^verbatim>\<open>isMinQuantityAccessory\<close> holds for the product.
\<close>

definition getReferencePrice :: "(product \<Rightarrow> bool) \<Rightarrow> product \<Rightarrow> js_number" where
  "getReferencePrice isMinQuantityAccessory p =
     (let basePrice = parsePriceString (field_value (precio3 p))
      in if isMinQuantityAccessory p then js_mul basePrice (Finite 2) else basePrice)"

definition priceCompare ::
  "PriceSortOrder \<Rightarrow> (product \<Rightarrow> bool) \<Rightarrow> product \<Rightarrow> product \<Rightarrow> js_number" where
  "priceCompare order isMinQuantityAccessory a b =
     (let priceA = getReferencePrice isMinQuantityAccessory a;
          priceB = getReferencePrice isMinQuantityAccessory b
      in if order = SortAsc then js_sub priceA priceB else js_sub priceB priceA)"

text \<open>
  \<^verbatim>\<open>Array.prototype.sort(comparefn)\<close>. ECMAScript fixes the result for a consistent
  comparator: the elements in comparator order, equal ones in their order before the call
  (the sort is stable), a \<open>NaN\<close> from the comparator read as 0. Insertion from the right
  computes that result: an element goes behind the sorted rest's elements it is strictly
  greater than, and stops at the first one it is not.
\<close>

fun sort_insert :: "('a \<Rightarrow> 'a \<Rightarrow> js_number) \<Rightarrow> 'a \<Rightarrow> 'a list \<Rightarrow> 'a list" where
  "sort_insert cmp x [] = [x]"
| "sort_insert cmp x (y # ys) =
     (if js_greater (cmp x y) (Finite 0) then y # sort_insert cmp x ys else x # y # ys)"

definition array_sort :: "('a \<Rightarrow> 'a \<Rightarrow> js_number) \<Rightarrow> 'a list \<Rightarrow> 'a list" where
  "array_sort cmp xs = foldr (sort_insert cmp) xs []"

definition priceSortStage ::
  "PriceSortOrder \<Rightarrow> (product \<Rightarrow> bool) \<Rightarrow> product list \<Rightarrow> product list" where
  "priceSortStage order isMinQuantityAccessory ps =
     (if order \<noteq> SortDefault then array_sort (priceCompare order isMinQuantityAccessory) ps
      else ps)"

text \<open>The memoised value \<^verbatim>\<open>filteredProducts\<close>: the six stages in the order of the source.\<close>

definition candidates :: "product list \<Rightarrow> filter_state \<Rightarrow> product list" where
  "candidates products F =
     searchFilter (searchTerm F)
       (brandFilter (selectedBrand F)
         (categoryFilter (selectedCategory F)
           (stockFilter (showOutOfStock F)
             (skuFilter products))))"

definition filteredProducts ::
  "product list \<Rightarrow> filter_state \<Rightarrow> (product \<Rightarrow> bool) \<Rightarrow> product list" where
  "filteredProducts products F isMinQuantityAccessory =
     priceSortStage (priceSort F) isMinQuantityAccessory (candidates products F)"

section \<open>The facet lists\<close>

text \<open>
  \<^verbatim>\<open>[...new Set(xs)]\<close>: a set keeps its elements in insertion order, and adding an element
  it already holds changes nothing.
\<close>

definition set_add :: "'a list \<Rightarrow> 'a \<Rightarrow> 'a list" where
  "set_add acc x = (if x \<in> set acc then acc else acc @ [x])"

definition new_Set :: "'a list \<Rightarrow> 'a list" where
  "new_Set xs = foldl set_add [] xs"

definition categories :: "product list \<Rightarrow> string option list" where
  "categories products = Some Todos # new_Set (map categoria (filter validSku products))"

definition availableBrands :: "product list \<Rightarrow> string \<Rightarrow> string option list" where
  "availableBrands products cat =
     (if cat \<noteq> Todos
      then (let categoryProducts = filter (\<lambda>p. categoria p = Some cat \<and> validSku p) products
            in Some Todos # new_Set (filter truthy (map marca categoryProducts)))
      else Some Todos # new_Set (filter truthy (map marca (filter validSku products))))"

section \<open>The handlers of the filter controls\<close>

text \<open>
  Each handler is the sequence of state setters of the source, applied to the filter state.
\<close>

definition onCategoryChange :: "string \<Rightarrow> filter_state \<Rightarrow> filter_state" where
  "onCategoryChange v F = F\<lparr>selectedCategory := v, selectedBrand := Todos, searchTerm := []\<rparr>"

definition onBrandChange :: "string \<Rightarrow> filter_state \<Rightarrow> filter_state" where
  "onBrandChange v F = F\<lparr>selectedBrand := v, searchTerm := []\<rparr>"

definition onSearchChange :: "string \<Rightarrow> filter_state \<Rightarrow> filter_state" where
  "onSearchChange v F = F\<lparr>searchTerm := v\<rparr>"

definition onPriceSortChange :: "PriceSortOrder \<Rightarrow> filter_state \<Rightarrow> filter_state" where
  "onPriceSortChange v F = F\<lparr>priceSort := v\<rparr>"

definition toggleOutOfStock :: "filter_state \<Rightarrow> filter_state" where
  "toggleOutOfStock F = F\<lparr>showOutOfStock := \<not> showOutOfStock F\<rparr>"

definition resetFilters :: "filter_state \<Rightarrow> filter_state" where
  "resetFilters F =
     F\<lparr>searchTerm := [], selectedCategory := Todos, selectedBrand := Todos,
       showOutOfStock := False, priceSort := SortDefault\<rparr>"

definition initial_filter_state :: filter_state where
  "initial_filter_state =
     \<lparr>searchTerm = [], selectedCategory = Todos, selectedBrand = Todos,
      showOutOfStock = False, priceSort = SortDefault\<rparr>"

text \<open>
  The conditions of the five filter stages on one product, taken together; the proofs use
  it to read the candidates as one filter.
\<close>

definition candidate :: "filter_state \<Rightarrow> product \<Rightarrow> bool" where
  "candidate F p \<longleftrightarrow>
     validSku p
     \<and> (showOutOfStock F \<or> inStock p)
     \<and> (selectedCategory F = Todos \<or> categoria p = Some (selectedCategory F))
     \<and> (selectedBrand F = Todos \<or> marca p = Some (selectedBrand F))
     \<and> (searchTerm F = [] \<or> searchMatches (searchTerm F) p)"

section \<open>Notions used to state and prove the properties\<close>

text \<open>
  De-duplication in first-seen order, as the specification words the facet lists: the first
  element stays, its later copies go, and so on for the rest.
\<close>

fun first_seen :: "'a list \<Rightarrow> 'a list" where
  "first_seen [] = []"
| "first_seen (x # xs) = x # filter (\<lambda>y. y \<noteq> x) (first_seen xs)"

text \<open>
  Rounding an integer, computed on integers: the bit length gives the exponent, and the
  bits below the 53 leading ones decide the rounding. Lemma \<open>round_double_of_int\<close> below
  shows that it is \<open>round_double\<close> on integers.
\<close>

definition double_of_int :: "int \<Rightarrow> js_number" where
  "double_of_int n =
     (let a = \<bar>n\<bar>; e = bitlen a - 1
      in if e \<le> 52 then Finite (of_int n)
         else (let u = 2 ^ nat (e - 52); f = a div u; r = a mod u;
                   m = (if 2 * r < u \<or> (2 * r = u \<and> even f) then f else f + 1);
                   v = m * u
               in if 2 ^ 1024 \<le> v then (if 0 < n then PosInfinity else NegInfinity)
                  else Finite (of_int (sgn n * v))))"

text \<open>
  The integer that \<^verbatim>\<open>parsePriceString\<close> reads from a raw price before it is rounded to a
  double: 0 for an absent or empty price and for a text in which \<^verbatim>\<open>parseInt\<close> finds no
  number.
\<close>

definition price_mathInt :: "string option \<Rightarrow> int" where
  "price_mathInt raw =
     (case raw of
        None \<Rightarrow> 0
      | Some s \<Rightarrow>
          if s = [] then 0
          else (case parseInt_mathInt (trim (remove_char CHR ''.'' (remove_char CHR ''$'' s))) of
                  None \<Rightarrow> 0
                | Some n \<Rightarrow> n))"

text \<open>
  The values a reference price takes: an integer below \<open>2 ^ 1024\<close> in magnitude, or an
  infinity. Their order is the one of the reals once the infinities are put at
  \<open>2 ^ 1024\<close> and \<open>- 2 ^ 1024\<close>, the first values beyond the doubles.
\<close>

fun is_price :: "js_number \<Rightarrow> bool" where
  "is_price (Finite r) = ((\<exists>k::int. r = of_int k) \<and> \<bar>r\<bar> < 2 ^ 1024)"
| "is_price NaN = False"
| "is_price PosInfinity = True"
| "is_price NegInfinity = True"

fun price_rank :: "js_number \<Rightarrow> real" where
  "price_rank (Finite r) = r"
| "price_rank NaN = 0"
| "price_rank PosInfinity = 2 ^ 1024"
| "price_rank NegInfinity = - (2 ^ 1024)"

definition price_key :: "(product \<Rightarrow> bool) \<Rightarrow> product \<Rightarrow> real" where
  "price_key acc p = price_rank (getReferencePrice acc p)"

section \<open>Sample data\<close>

text \<open>
  The three products and the filter state of the specification's scenario; a field the
  scenario leaves out is absent.
\<close>

definition product_A1 :: product where
  "product_A1 =
     \<lparr>product_id = None, sku = Some ''A1'', nombre = Some ''Paleta Pro'',
      categoria = Some ''Paletas'', marca = Some ''X'', nivelDeJuego = Some ''avanzado'',
      anio = Some ''2026'', precio3 = Some ''$1.000'', stock = JNumber (Finite 5),
      urlImagenes = None\<rparr>"

definition product_broken :: product where
  "product_broken =
     \<lparr>product_id = None, sku = Some [], nombre = Some ''broken'',
      categoria = None, marca = None, nivelDeJuego = None,
      anio = None, precio3 = None, stock = JUndefined,
      urlImagenes = None\<rparr>"

definition product_B2 :: product where
  "product_B2 =
     \<lparr>product_id = None, sku = Some ''B2'', nombre = Some ''Pelota Mix'',
      categoria = Some ''Pelotas'', marca = Some ''Y'', nivelDeJuego = Some [],
      anio = Some ''2025'', precio3 = Some ''$200'', stock = JNumber (Finite 0),
      urlImagenes = None\<rparr>"

definition scenario_products :: "product list" where
  "scenario_products = [product_A1, product_broken, product_B2]"

definition scenario_filter :: filter_state where
  "scenario_filter =
     \<lparr>searchTerm = ''avanzado'', selectedCategory = Todos, selectedBrand = Todos,
      showOutOfStock = False, priceSort = SortDefault\<rparr>"

text \<open>A product whose stock is a negative number, as a row of returned goods has.\<close>

definition product_returned :: product where
  "product_returned =
     \<lparr>product_id = Some ''7'', sku = Some ''R7'', nombre = Some ''Grip'',
      categoria = Some ''Accesorios'', marca = Some ''Z'', nivelDeJuego = None,
      anio = None, precio3 = Some ''$300'', stock = JNumber (Finite (- 3)),
      urlImagenes = None\<rparr>"

text \<open>A list with a repeated product, and an accessory predicate that holds for one SKU.\<close>

definition product_blank :: product where
  "product_blank =
     \<lparr>product_id = Some ''8'', sku = Some ''   '', nombre = Some ''Sin codigo'',
      categoria = Some ''Fantasma'', marca = Some ''W'', nivelDeJuego = None,
      anio = None, precio3 = Some ''$100'', stock = JNumber (Finite 4),
      urlImagenes = None\<rparr>"

definition product_nobrand :: product where
  "product_nobrand =
     \<lparr>product_id = Some ''10'', sku = Some ''N1'', nombre = Some ''Bolso'',
      categoria = Some ''Bolsos'', marca = Some [], nivelDeJuego = None,
      anio = None, precio3 = Some ''$900'', stock = JNumber (Finite 2),
      urlImagenes = None\<rparr>"

definition product_absent_brand :: product where
  "product_absent_brand =
     \<lparr>product_id = Some ''11'', sku = Some ''N2'', nombre = Some ''Pelota suelta'',
      categoria = Some ''Pelotas'', marca = None, nivelDeJuego = None,
      anio = None, precio3 = Some ''$50'', stock = JNumber (Finite 9),
      urlImagenes = None\<rparr>"

definition facet_products :: "product list" where
  "facet_products =
     [product_A1, product_broken, product_blank, product_B2, product_nobrand,
      product_absent_brand, product_returned, product_A1]"

text \<open>A product whose name has the four punctuation characters and upper-case letters.\<close>

definition product_carbon :: product where
  "product_carbon =
     \<lparr>product_id = Some ''9'', sku = Some ''PC-26'',
      nombre = Some ''Pro-Carbon (Edicion 2026)/Control'',
      categoria = Some ''Paletas'', marca = Some ''X'', nivelDeJuego = Some ''Intermedio'',
      anio = Some ''2025'', precio3 = Some ''$2.500'', stock = JNumber (Finite 3),
      urlImagenes = None\<rparr>"

definition accessory_R7 :: "product \<Rightarrow> bool" where
  "accessory_R7 p = (sku p = Some ''R7'')"

text \<open>
  Prices beyond the integers a double holds exactly: \<open>2 ^ 53 + 1\<close>, \<open>2 ^ 53\<close>, and a 1
  followed by 309 zeros.
\<close>

definition product_500 :: product where
  "product_500 = product_B2\<lparr>precio3 := Some ''$500''\<rparr>"

definition product_P1 :: product where
  "product_P1 = product_A1\<lparr>sku := Some ''P1'', precio3 := Some ''9007199254740993''\<rparr>"

definition product_P2 :: product where
  "product_P2 = product_A1\<lparr>sku := Some ''P2'', precio3 := Some ''9007199254740992''\<rparr>"

definition product_overflow :: product where
  "product_overflow =
     product_A1\<lparr>sku := Some ''P3'', precio3 := Some (CHR ''1'' # replicate 309 CHR ''0'')\<rparr>"

definition product_overflow2 :: product where
  "product_overflow2 = product_overflow\<lparr>sku := Some ''P4''\<rparr>"

text \<open>The stock invariant as the specification words it: a finite number, not negative.\<close>

fun nonneg_finite_number :: "js_value \<Rightarrow> bool" where
  "nonneg_finite_number (JNumber (Finite r)) = (0 \<le> r)"
| "nonneg_finite_number _ = False"

section \<open>Rounding integers to doubles\<close>

lemma round_half_even_of_int: "round_half_even (of_int k) = k"
  by (simp add: round_half_even_def)

lemma round_half_even_div:
  assumes "0 < U"
  shows "round_half_even (of_int a / of_int U) =
     (if 2 * (a mod U) < U \<or> (2 * (a mod U) = U \<and> even (a div U)) then a div U else a div U + 1)"
proof -
  have fl: "\<lfloor>real_of_int a / real_of_int U\<rfloor> = a div U"
    by (rule floor_divide_of_int_eq)
  have "real_of_int a = real_of_int (a div U) * real_of_int U + real_of_int (a mod U)"
    by (metis of_int_add of_int_mult div_mult_mod_eq)
  then have d: "real_of_int a / real_of_int U - real_of_int (a div U)
                 = real_of_int (a mod U) / real_of_int U"
    using assms by (simp add: field_simps)
  have lt: "real_of_int (a mod U) / real_of_int U < 1 / 2 \<longleftrightarrow> 2 * (a mod U) < U"
    using assms by (simp add: field_simps) linarith
  have eq: "real_of_int (a mod U) / real_of_int U = 1 / 2 \<longleftrightarrow> 2 * (a mod U) = U"
    using assms by (simp add: field_simps) linarith
  show ?thesis
    unfolding round_half_even_def Let_def fl d lt eq by simp
qed


lemma bitlen_pos: "0 < a \<Longrightarrow> 1 \<le> bitlen a"
  by (auto simp: bitlen_alt_def)

lemma floor_log2_of_int: "0 < a \<Longrightarrow> \<lfloor>log 2 (real_of_int a)\<rfloor> = bitlen a - 1"
  by (simp add: bitlen_alt_def)

lemma round_double_of_int: "round_double (of_int n) = double_of_int n"
proof (cases "n = 0")
  case True
  then show ?thesis
    by (simp add: round_double_def double_of_int_def)
next
  case False
  define a where "a = \<bar>n\<bar>"
  define e where "e = bitlen a - 1"
  have a: "0 < a"
    using False by (simp add: a_def)
  have e0: "0 \<le> e"
    using bitlen_pos[OF a] by (simp add: e_def)
  have abs: "\<bar>real_of_int n\<bar> = real_of_int a"
    by (simp add: a_def)
  have ex: "max \<lfloor>log 2 (real_of_int a)\<rfloor> (- 1022) = e"
    using e0 by (simp add: floor_log2_of_int[OF a] e_def)
  have hi: "a < 2 ^ nat (e + 1)"
    using bitlen_bounds[OF a] by (simp add: e_def)
  have lo: "2 ^ nat e \<le> a"
    using bitlen_bounds[OF a] by (simp add: e_def)
  have sg: "sgn (real_of_int n) * real_of_int k = real_of_int (sgn n * k)" for k
    by (simp add: sgn_if)
  show ?thesis
  proof (cases "e \<le> 52")
    case True
    define c where "c = nat (52 - e)"
    have u: "(2::real) powi (e - 52) = 1 / 2 ^ c"
      using True by (simp add: power_int_def c_def field_simps)
    have q: "real_of_int a / (1 / 2 ^ c) = real_of_int (a * 2 ^ c)"
      by simp
    have "a < 2 ^ 53"
    proof -
      have "(2::int) ^ nat (e + 1) \<le> 2 ^ 53"
        using True e0 by (intro power_increasing) auto
      with hi show ?thesis by linarith
    qed
    then have small: "\<not> (2::real) ^ 1024 \<le> real_of_int a"
    proof -
      assume "a < 2 ^ 53"
      then have "real_of_int a < 2 ^ 53"
        by (metis of_int_less_iff of_int_numeral of_int_power)
      moreover have "(2::real) ^ 53 \<le> 2 ^ 1024"
        by (intro power_increasing) auto
      ultimately show ?thesis by linarith
    qed
    have v: "real_of_int (round_half_even (real_of_int a / (1 / 2 ^ c))) * (1 / 2 ^ c)
               = real_of_int a"
      unfolding q round_half_even_of_int by simp
    have "round_double (of_int n) = Finite (of_int n)"
      using False small
      unfolding round_double_def Let_def abs ex u v
      by (simp add: a_def sgn_if)
    moreover have "double_of_int n = Finite (of_int n)"
      unfolding double_of_int_def Let_def a_def[symmetric] e_def[symmetric]
      using True by simp
    ultimately show ?thesis by simp
  next
    case False
    define U :: int where "U = 2 ^ nat (e - 52)"
    have U: "0 < U"
      by (simp add: U_def)
    have u: "(2::real) powi (e - 52) = real_of_int U"
      using False by (simp add: power_int_def U_def)
    define m where "m = (if 2 * (a mod U) < U \<or> (2 * (a mod U) = U \<and> even (a div U))
                          then a div U else a div U + 1)"
    have rh: "round_half_even (real_of_int a / real_of_int U) = m"
      unfolding m_def by (rule round_half_even_div[OF U])
    have ov: "(2::real) ^ 1024 \<le> real_of_int m * real_of_int U \<longleftrightarrow> 2 ^ 1024 \<le> m * U"
    proof -
      have "(2::real) ^ 1024 = real_of_int (2 ^ 1024)"
        by simp
      then show ?thesis
        by (metis of_int_le_iff of_int_mult)
    qed
    have "round_double (of_int n) =
            (if 2 ^ 1024 \<le> m * U then (if 0 < n then PosInfinity else NegInfinity)
             else Finite (of_int (sgn n * (m * U))))"
      using \<open>n \<noteq> 0\<close>
      unfolding round_double_def Let_def abs ex u rh ov
      by (simp add: sg flip: of_int_mult)
    moreover have "double_of_int n =
            (if 2 ^ 1024 \<le> m * U then (if 0 < n then PosInfinity else NegInfinity)
             else Finite (of_int (sgn n * (m * U))))"
      unfolding double_of_int_def Let_def a_def[symmetric] e_def[symmetric]
        U_def[symmetric] m_def[symmetric]
      using False by simp
    ultimately show ?thesis by simp
  qed
qed



lemma double_of_int_representable:
  assumes j: "\<bar>j\<bar> \<le> 2 ^ 53" and b: "\<bar>j\<bar> * 2 ^ c < 2 ^ 1024"
  shows "double_of_int (j * 2 ^ c) = Finite (of_int (j * 2 ^ c))"
proof (cases "j = 0")
  case True
  then show ?thesis
    by (simp add: double_of_int_def)
next
  case False
  define a where "a = \<bar>j * 2 ^ c\<bar>"
  define e where "e = bitlen a - 1"
  have a: "a = \<bar>j\<bar> * 2 ^ c"
    by (simp add: a_def abs_mult)
  have jpos: "0 < \<bar>j\<bar>"
    using False by simp
  have e: "e = bitlen \<bar>j\<bar> + int c - 1"
    unfolding e_def a using bitlen_pow2[OF jpos, of c] by simp
  show ?thesis
  proof (cases "e \<le> 52")
    case True
    then show ?thesis
      unfolding double_of_int_def Let_def a_def[symmetric] e_def[symmetric] by simp
  next
    case False
    define U :: int where "U = 2 ^ nat (e - 52)"
    have U: "0 < U"
      by (simp add: U_def)
    have dvd: "U dvd a"
    proof (cases "bitlen \<bar>j\<bar> \<le> 53")
      case True
      then have "nat (e - 52) \<le> c"
        using e by simp
      then have "U dvd 2 ^ c"
        unfolding U_def by (rule le_imp_power_dvd)
      then show ?thesis
        unfolding a by simp
    next
      case False
      then have "\<not> \<bar>j\<bar> < 2 ^ 53"
        using bitlen_le_iff_power[of "\<bar>j\<bar>" 53] by simp
      with j have j53: "\<bar>j\<bar> = 2 ^ 53"
        by simp
      have "bitlen \<bar>j\<bar> = 54"
        unfolding j53 using bitlen_pow2[of 1 53] by (simp add: compute_bitlen)
      then have ec: "nat (e - 52) = c + 1"
        using e by simp
      have "a = 2 ^ (c + 1) * 2 ^ 52"
        unfolding a j53 by (simp add: power_add)
      then show ?thesis
        unfolding U_def ec by simp
    qed
    then have r: "a mod U = 0"
      by simp
    have v: "a div U * U = a"
      using dvd by simp
    have small: "\<not> 2 ^ 1024 \<le> a"
      using b by (simp add: a)
    have sg: "sgn (j * 2 ^ c) * a = j * 2 ^ c"
      unfolding a_def by (simp add: sgn_if)
    show ?thesis
      unfolding double_of_int_def Let_def a_def[symmetric] e_def[symmetric] U_def[symmetric] r
      using False U small by (simp add: v sg)
  qed
qed

lemma double_of_int_exact: "\<bar>n\<bar> \<le> 2 ^ 53 \<Longrightarrow> double_of_int n = Finite (of_int n)"
  using double_of_int_representable[of n 0] by simp

lemma double_of_int_twice: "\<bar>n\<bar> \<le> 2 ^ 53 \<Longrightarrow> double_of_int (2 * n) = Finite (of_int (2 * n))"
  using double_of_int_representable[of n 1] by (simp add: mult.commute)

lemma round_double_numeral: "round_double (numeral w) = double_of_int (numeral w)"
  using round_double_of_int[of "numeral w"] by simp

lemma round_double_neg_numeral: "round_double (- numeral w) = double_of_int (- numeral w)"
  using round_double_of_int[of "- numeral w"] by simp

lemma double_of_int_cases:
  obtains (finite) v where "double_of_int n = Finite (of_int v)" "\<bar>v\<bar> < 2 ^ 1024"
      "0 < v \<longleftrightarrow> 0 < n" "v < 0 \<longleftrightarrow> n < 0"
    | (pos) "double_of_int n = PosInfinity" "0 < n"
    | (neg) "double_of_int n = NegInfinity" "n < 0"
proof -
  define a where "a = \<bar>n\<bar>"
  define e where "e = bitlen a - 1"
  show thesis
  proof (cases "e \<le> 52")
    case True
    then have "bitlen a \<le> 53"
      by (simp add: e_def)
    then have "a < 2 ^ 53"
      by (simp add: bitlen_le_iff_power)
    moreover have "(2::int) ^ 53 \<le> 2 ^ 1024"
      by (intro power_increasing) auto
    ultimately have "\<bar>n\<bar> < 2 ^ 1024"
      unfolding a_def by linarith
    moreover have "double_of_int n = Finite (of_int n)"
      unfolding double_of_int_def Let_def a_def[symmetric] e_def[symmetric]
      using True by simp
    ultimately show thesis
      by (intro finite[of n]) auto
  next
    case False
    define U :: int where "U = 2 ^ nat (e - 52)"
    define m where "m = (if 2 * (a mod U) < U \<or> (2 * (a mod U) = U \<and> even (a div U))
                          then a div U else a div U + 1)"
    have U: "0 < U"
      by (simp add: U_def)
    have apos: "0 < a"
    proof (rule ccontr)
      assume "\<not> 0 < a"
      then have "bitlen a = 0"
        by (simp add: bitlen_eq_zero_iff)
      with False show False
        by (simp add: e_def)
    qed
    have "2 ^ nat e \<le> a"
      using bitlen_bounds[OF apos] by (simp add: e_def)
    moreover have "U \<le> 2 ^ nat e"
      unfolding U_def by (intro power_increasing) auto
    ultimately have "U \<le> a"
      by linarith
    then have "0 < a div U"
      using U by (simp add: pos_imp_zdiv_pos_iff)
    then have m1: "1 \<le> m"
      by (simp add: m_def)
    then have v: "0 < m * U"
      using U by simp
    have d: "double_of_int n =
            (if 2 ^ 1024 \<le> m * U then (if 0 < n then PosInfinity else NegInfinity)
             else Finite (of_int (sgn n * (m * U))))"
      unfolding double_of_int_def Let_def a_def[symmetric] e_def[symmetric]
        U_def[symmetric] m_def[symmetric]
      using False by simp
    have n0: "n \<noteq> 0"
      using apos by (simp add: a_def)
    show thesis
    proof (cases "2 ^ 1024 \<le> m * U")
      case True
      then show thesis
        using d n0 pos neg by (cases "0 < n") auto
    next
      case False
      then have "\<bar>sgn n * (m * U)\<bar> < 2 ^ 1024"
        using v n0 by (simp add: abs_mult)
      moreover have "0 < sgn n * (m * U) \<longleftrightarrow> 0 < n" "sgn n * (m * U) < 0 \<longleftrightarrow> n < 0"
        using v n0 by (auto simp: sgn_if)
      ultimately show thesis
        using d False by (intro finite[of "sgn n * (m * U)"]) auto
    qed
  qed
qed

lemma real_of_int_less_pow1024: "\<bar>real_of_int v\<bar> < 2 ^ 1024 \<longleftrightarrow> \<bar>v\<bar> < 2 ^ 1024"
proof -
  have "\<bar>real_of_int v\<bar> = real_of_int \<bar>v\<bar>" by simp
  moreover have "(2::real) ^ 1024 = real_of_int (2 ^ 1024)" by simp
  ultimately show ?thesis
    by (metis of_int_less_iff)
qed

lemma is_price_double_of_int: "is_price (double_of_int n)"
  by (cases n rule: double_of_int_cases) (auto simp: real_of_int_less_pow1024)

lemma double_of_int_positive: "js_less (Finite 0) (double_of_int n) \<longleftrightarrow> 0 < n"
  by (cases n rule: double_of_int_cases) auto

section \<open>The scenario of the specification\<close>

text \<open>
  Claim C1. On the three sample products, with out-of-stock products hidden, the search
  text \<^verbatim>\<open>avanzado\<close>, both selects at the sentinel and no price order, the pipeline returns
  exactly the product with SKU \<^verbatim>\<open>A1\<close>, whatever the accessory predicate is.
\<close>

theorem scenario_result_is_A1:
  "filteredProducts scenario_products scenario_filter isMinQuantityAccessory = [product_A1]"
proof -
  have "candidates scenario_products scenario_filter = [product_A1]"
    by code_simp
  moreover have "priceSort scenario_filter = SortDefault"
    by (simp add: scenario_filter_def)
  ultimately show ?thesis
    by (simp add: filteredProducts_def priceSortStage_def)
qed

section \<open>The reference price\<close>

lemma digit_not_whitespace: "is_digit c \<Longrightarrow> \<not> is_whitespace c"
  by (auto simp: is_digit_def is_whitespace_def Let_def)

lemma digit_not_special:
  "is_digit c \<Longrightarrow> c \<noteq> CHR ''$'' \<and> c \<noteq> CHR ''.'' \<and> c \<noteq> CHR ''-'' \<and> c \<noteq> CHR ''+''"
  by (auto simp: is_digit_def Let_def)

lemma dropWhile_none: "\<forall>x\<in>set xs. \<not> P x \<Longrightarrow> dropWhile P xs = xs"
  by (cases xs) auto

lemma trim_no_whitespace: "\<forall>c\<in>set s. \<not> is_whitespace c \<Longrightarrow> trim s = s"
  by (simp add: trim_def dropWhile_none)

lemma parseInt_mathInt_digits:
  assumes "\<forall>c\<in>set ds. is_digit c"
  shows "parseInt_mathInt ds = (if ds = [] then None else Some (digits_value ds))"
proof (cases ds)
  case Nil
  then show ?thesis by (simp add: parseInt_mathInt_def)
next
  case (Cons d ds')
  with assms have d: "is_digit d" by simp
  have dw: "dropWhile is_whitespace ds = ds"
    using digit_not_whitespace[OF d] by (simp add: Cons)
  have tw: "takeWhile is_digit ds = ds"
    using assms by simp
  have hd: "hd ds \<noteq> CHR ''-''" "hd ds \<noteq> CHR ''+''" "ds \<noteq> []"
    using digit_not_special[OF d] by (simp_all add: Cons)
  show ?thesis
    unfolding parseInt_mathInt_def dw Let_def using hd by (simp add: tw)
qed

lemma price_mathInt_digits:
  assumes "\<forall>c\<in>set s. is_digit c \<or> c = CHR ''$'' \<or> c = CHR ''.''"
  shows "price_mathInt (Some s) = digits_value (filter is_digit s)"
proof -
  let ?ds = "filter is_digit s"
  have strip: "remove_char CHR ''.'' (remove_char CHR ''$'' s) = ?ds"
    unfolding remove_char_def filter_filter
    by (rule filter_cong) (use assms digit_not_special in auto)
  have "trim ?ds = ?ds"
    by (rule trim_no_whitespace) (auto dest: digit_not_whitespace)
  moreover have "parseInt_mathInt ?ds = (if ?ds = [] then None else Some (digits_value ?ds))"
    by (rule parseInt_mathInt_digits) simp
  moreover have "digits_value [] = 0"
    by (simp add: digits_value_def)
  ultimately show ?thesis
    using strip by (simp add: price_mathInt_def)
qed

lemma round_double_zero: "round_double 0 = Finite 0"
  by (simp add: round_double_def)

lemma round_double_not_NaN: "\<not> isNaN (round_double x)"
  by (simp add: round_double_def Let_def)

lemma parsePriceString_mathInt:
  "parsePriceString (field_value raw) = round_double (of_int (price_mathInt raw))"
proof (cases raw)
  case None
  then show ?thesis
    by (simp add: price_mathInt_def round_double_zero)
next
  case (Some s)
  show ?thesis
    unfolding Some
    by (simp add: price_mathInt_def parseInt10_def Let_def round_double_zero
        round_double_not_NaN split: option.split)
qed

lemma getReferencePrice_mathInt:
  "getReferencePrice acc p =
     (if acc p then js_mul (round_double (of_int (price_mathInt (precio3 p)))) (Finite 2)
      else round_double (of_int (price_mathInt (precio3 p))))"
  by (simp add: getReferencePrice_def parsePriceString_mathInt)

lemma js_mul_two_exact:
  assumes "\<bar>k\<bar> \<le> 2 ^ 53"
  shows "js_mul (round_double (of_int k)) (Finite 2) = Finite (of_int (2 * k))"
proof -
  have "round_double (of_int k) = Finite (of_int k)"
    using assms by (simp add: round_double_of_int double_of_int_exact)
  moreover have "round_double (real_of_int k * 2) = double_of_int (2 * k)"
    using round_double_of_int[of "2 * k"] by (simp add: mult.commute)
  ultimately show ?thesis
    using assms by (simp add: double_of_int_twice)
qed

lemma getReferencePrice_exact:
  assumes "\<bar>price_mathInt (precio3 p)\<bar> \<le> 2 ^ 53"
  shows "getReferencePrice acc p
           = Finite (of_int (if acc p then 2 * price_mathInt (precio3 p)
                             else price_mathInt (precio3 p)))"
proof (cases "acc p")
  case True
  then show ?thesis
    using js_mul_two_exact[OF assms] by (simp add: getReferencePrice_mathInt)
next
  case False
  then show ?thesis
    using assms by (simp add: getReferencePrice_mathInt round_double_of_int double_of_int_exact)
qed

lemma digits_value_snoc: "digits_value (ds @ [c]) = 10 * digits_value ds + digit_value c"
  by (simp add: digits_value_def)

lemma digits_value_zeros:
  "digits_value (ds @ replicate n CHR ''0'') = digits_value ds * 10 ^ n"
proof (induction n)
  case 0
  then show ?case by simp
next
  case (Suc n)
  have "ds @ replicate (Suc n) CHR ''0'' = (ds @ replicate n CHR ''0'') @ [CHR ''0'']"
    by (simp add: replicate_append_same)
  then show ?case
    using Suc by (simp only: digits_value_snoc) (simp add: digit_value_def)
qed

lemma double_of_int_overflow:
  assumes big: "2 ^ 1024 \<le> n"
  shows "double_of_int n = PosInfinity"
proof -
  define e where "e = bitlen \<bar>n\<bar> - 1"
  define U :: int where "U = 2 ^ nat (e - 52)"
  define m where "m = (if 2 * (\<bar>n\<bar> mod U) < U \<or> (2 * (\<bar>n\<bar> mod U) = U \<and> even (\<bar>n\<bar> div U))
                        then \<bar>n\<bar> div U else \<bar>n\<bar> div U + 1)"
  have npos: "0 < n"
    using big by (smt (verit) zero_less_power)
  then have abs: "\<bar>n\<bar> = n"
    by simp
  have "n < 2 ^ nat (bitlen n)"
    using bitlen_bounds[OF npos] by simp
  with big have "(2::int) ^ 1024 < 2 ^ nat (bitlen n)"
    by linarith
  then have "1024 < nat (bitlen n)"
    by (rule power_less_imp_less_exp[rotated]) simp
  then have e: "1024 \<le> e"
    by (simp add: e_def abs)
  have lo: "2 ^ nat e \<le> n"
    using bitlen_bounds[OF npos] by (simp add: e_def abs)
  have U: "0 < U"
    by (simp add: U_def)
  have split: "(2::int) ^ nat e = 2 ^ 52 * U"
  proof -
    have "nat e = 52 + nat (e - 52)"
      using e by simp
    then show ?thesis
      unfolding U_def by (simp only: power_add)
  qed
  have "2 ^ 52 * U div U \<le> n div U"
    using lo U unfolding split by (intro zdiv_mono1) auto
  then have "2 ^ 52 \<le> n div U"
    using U by simp
  then have "2 ^ 52 \<le> m"
    by (simp add: m_def abs)
  then have "2 ^ 52 * U \<le> m * U"
    using U by (intro mult_right_mono) auto
  moreover have "(2::int) ^ 1024 \<le> 2 ^ nat e"
    using e by (intro power_increasing) auto
  ultimately have ov: "2 ^ 1024 \<le> m * U"
    unfolding split by linarith
  have "\<not> e \<le> 52"
    using e by simp
  then show ?thesis
    unfolding double_of_int_def Let_def e_def[symmetric] U_def[symmetric] m_def[symmetric]
    using ov npos by simp
qed

lemma price_mathInt_overflow:
  "price_mathInt (Some (CHR ''1'' # replicate 309 CHR ''0'')) = 10 ^ 309"
proof -
  have digits: "\<forall>c\<in>set (CHR ''1'' # replicate 309 CHR ''0''). is_digit c \<or> c = CHR ''$'' \<or> c = CHR ''.''"
    by (simp add: is_digit_def)
  have all: "filter is_digit (CHR ''1'' # replicate 309 CHR ''0'') = CHR ''1'' # replicate 309 CHR ''0''"
    by (simp add: is_digit_def)
  have "digits_value ([CHR ''1''] @ replicate 309 CHR ''0'') = digits_value [CHR ''1''] * 10 ^ 309"
    by (rule digits_value_zeros)
  then have dv: "digits_value (CHR ''1'' # replicate 309 CHR ''0'') = 10 ^ 309"
    by (simp add: digits_value_def digit_value_def)
  show ?thesis
    using price_mathInt_digits[OF digits] unfolding all dv .
qed

lemma double_of_int_huge: "double_of_int (10 ^ 309) = PosInfinity"
proof -
  have "(2::int) ^ 1024 \<le> 10 ^ 309"
    by simp
  then show ?thesis
    by (rule double_of_int_overflow)
qed

text \<open>
  Claim C3, as the specification states it, makes the reference price of every product the
  integer its raw price spells. A JavaScript number is a double: the price
  \<^verbatim>\<open>9007199254740993\<close> (\<open>2 ^ 53 + 1\<close>) is read as 9007199254740992, and a price of 310
  digits is read as \<open>Infinity\<close>, which is no integer.
\<close>

theorem reference_price_rounded_counterexample:
  "precio3 product_P1 = Some ''9007199254740993''
   \<and> getReferencePrice (\<lambda>_. False) product_P1 = Finite 9007199254740992
   \<and> getReferencePrice (\<lambda>_. False) product_P1 \<noteq> Finite 9007199254740993
   \<and> getReferencePrice (\<lambda>_. False) product_overflow = PosInfinity"
proof -
  have p1: "price_mathInt (precio3 product_P1) = 9007199254740993"
    by code_simp
  have r1: "double_of_int 9007199254740993 = Finite 9007199254740992"
    by code_simp
  have g1: "getReferencePrice (\<lambda>_. False) product_P1 = Finite 9007199254740992"
    using round_double_of_int[of 9007199254740993]
    by (simp add: getReferencePrice_mathInt p1 r1)
  have p3: "price_mathInt (precio3 product_overflow) = 10 ^ 309"
    using price_mathInt_overflow by (simp add: product_overflow_def)
  note r3 = double_of_int_huge
  have g3: "getReferencePrice (\<lambda>_. False) product_overflow = PosInfinity"
    by (simp only: getReferencePrice_mathInt p3 if_False round_double_of_int r3)
  show ?thesis
    using g1 g3 by (simp add: product_P1_def)
qed

text \<open>
  Claim C3, amended. The reference price of a product is the number that
  \<^verbatim>\<open>parsePriceString\<close> reads from the raw price field, multiplied by 2 when the accessory
  predicate holds for the product and unchanged otherwise. The number read is the double
  nearest to the integer that the text spells once every \<^verbatim>\<open>$\<close> and \<^verbatim>\<open>.\<close> is stripped
  (for a text of digits, \<^verbatim>\<open>$\<close> and \<^verbatim>\<open>.\<close> the number its digits spell, so \<^verbatim>\<open>$1.234\<close> is
  1234; 0 for a text in which \<^verbatim>\<open>parseInt\<close> finds no number and for an absent price).
  Whenever that integer is at most \<open>2 ^ 53\<close> in magnitude, the reference price is exactly
  the integer, or exactly twice the integer under the predicate. For the raw price
  \<^verbatim>\<open>$500\<close> it is 1000 under a predicate that holds and 500 under one that does not.
\<close>

theorem reference_price_parsed_and_doubled:
  "parsePriceString (field_value (precio3 p)) = round_double (of_int (price_mathInt (precio3 p)))
   \<and> getReferencePrice acc p
       = (if acc p then js_mul (parsePriceString (field_value (precio3 p))) (Finite 2)
          else parsePriceString (field_value (precio3 p)))
   \<and> (\<bar>price_mathInt (precio3 p)\<bar> \<le> 2 ^ 53 \<longrightarrow>
        getReferencePrice acc p
          = Finite (of_int (if acc p then 2 * price_mathInt (precio3 p)
                            else price_mathInt (precio3 p))))
   \<and> ((\<forall>c\<in>set s. is_digit c \<or> c = CHR ''$'' \<or> c = CHR ''.'') \<longrightarrow>
        price_mathInt (Some s) = digits_value (filter is_digit s))
   \<and> price_mathInt (Some ''$1.234'') = 1234
   \<and> parsePriceString (JString ''$1.234'') = Finite 1234
   \<and> (parseInt_mathInt (trim (remove_char CHR ''.'' (remove_char CHR ''$'' t))) = None \<longrightarrow>
        price_mathInt (Some t) = 0 \<and> parsePriceString (JString t) = Finite 0)
   \<and> price_mathInt None = 0
   \<and> parsePriceString JUndefined = Finite 0
   \<and> getReferencePrice (\<lambda>_. True) (p\<lparr>precio3 := Some ''$500''\<rparr>) = Finite 1000
   \<and> getReferencePrice (\<lambda>_. False) (p\<lparr>precio3 := Some ''$500''\<rparr>) = Finite 500"
proof -
  have a: "price_mathInt (Some ''$1.234'') = 1234"
    by code_simp
  have a': "parsePriceString (JString ''$1.234'') = Finite 1234"
    using parsePriceString_mathInt[of "Some ''$1.234''"] round_double_of_int[of 1234]
    by (simp add: a double_of_int_exact)
  have b: "price_mathInt (Some ''$500'') = 500"
    by code_simp
  have b1: "getReferencePrice (\<lambda>_. True) (p\<lparr>precio3 := Some ''$500''\<rparr>) = Finite 1000"
    using getReferencePrice_exact[of "p\<lparr>precio3 := Some ''$500''\<rparr>" "\<lambda>_. True"]
    by (simp add: b)
  have b2: "getReferencePrice (\<lambda>_. False) (p\<lparr>precio3 := Some ''$500''\<rparr>) = Finite 500"
    using getReferencePrice_exact[of "p\<lparr>precio3 := Some ''$500''\<rparr>" "\<lambda>_. False"]
    by (simp add: b)
  have c: "parseInt_mathInt (trim (remove_char CHR ''.'' (remove_char CHR ''$'' t))) = None \<longrightarrow>
        price_mathInt (Some t) = 0 \<and> parsePriceString (JString t) = Finite 0"
    by (simp add: price_mathInt_def parseInt10_def)
  have d: "price_mathInt None = 0"
    by (simp add: price_mathInt_def)
  show ?thesis
    using parsePriceString_mathInt[of "precio3 p"] getReferencePrice_exact[of p acc]
      price_mathInt_digits[of s] a a' b1 b2 c d
    by (simp add: getReferencePrice_def)
qed

theorem reference_price_parsed_and_doubled_witness:
  "list_all (\<lambda>c. is_digit c \<or> c = CHR ''$'' \<or> c = CHR ''.'') ''$1.234''
   \<and> price_mathInt (Some ''$1.234'') = digits_value (filter is_digit ''$1.234'')
   \<and> parseInt_mathInt (trim (remove_char CHR ''.'' (remove_char CHR ''$'' ''s/n''))) = None
   \<and> parsePriceString (JString ''s/n'') = Finite 0
   \<and> \<bar>price_mathInt (precio3 product_500)\<bar> \<le> 2 ^ 53
   \<and> getReferencePrice (\<lambda>_. True) product_500 = Finite 1000
   \<and> getReferencePrice (\<lambda>_. False) product_500 = Finite 500"
proof -
  have h1: "\<forall>c\<in>set ''$1.234''. is_digit c \<or> c = CHR ''$'' \<or> c = CHR ''.''"
    by (simp add: is_digit_def)
  have h2: "parseInt_mathInt (trim (remove_char CHR ''.'' (remove_char CHR ''$'' ''s/n''))) = None"
    by code_simp
  have h3: "list_all (\<lambda>c. is_digit c \<or> c = CHR ''$'' \<or> c = CHR ''.'') ''$1.234''"
    using h1 unfolding list_all_iff .
  have k: "price_mathInt (precio3 product_500) = 500"
    by code_simp
  then have h4: "\<bar>price_mathInt (precio3 product_500)\<bar> \<le> 2 ^ 53"
    by simp
  from reference_price_parsed_and_doubled[of product_500 "\<lambda>_. True" "''$1.234''" "''s/n''"] h4
  have "getReferencePrice (\<lambda>_. True) product_500
          = Finite (of_int (if True then 2 * price_mathInt (precio3 product_500)
                            else price_mathInt (precio3 product_500)))"
    by blast
  then have t: "getReferencePrice (\<lambda>_. True) product_500 = Finite 1000"
    by (simp add: k)
  from reference_price_parsed_and_doubled[of product_500 "\<lambda>_. False" "''$1.234''" "''s/n''"] h4
  have "getReferencePrice (\<lambda>_. False) product_500
          = Finite (of_int (if False then 2 * price_mathInt (precio3 product_500)
                            else price_mathInt (precio3 product_500)))"
    by blast
  then have f: "getReferencePrice (\<lambda>_. False) product_500 = Finite 500"
    by (simp add: k)
  show ?thesis
    using h1 h2 h3 h4 t f
      reference_price_parsed_and_doubled[of product_500 "\<lambda>_. True" "''$1.234''" "''s/n''"]
    by blast
qed

section \<open>The normalizer's stock\<close>

lemma normalize_stock_number: "\<exists>n. normalize_stock v = JNumber n \<and> \<not> isNaN n"
  by (cases v) auto

text \<open>
  Claim C5, as the specification states it, asks for a stock that is finite and not negative
  after normalization. The normalizer tests only that the stock is a number other than
  \<open>NaN\<close>: the negative stock of the returned product stays negative.
\<close>

theorem normalized_stock_negative_counterexample:
  "\<not> nonneg_finite_number (stock (hd (normalizeProducts [product_returned])))"
  by (simp add: normalizeProducts_def product_returned_def)

text \<open>
  Claim C5, amended. Normalization keeps the number of products and their order. The stock
  of each normalized product is a number other than \<open>NaN\<close>: a stock that already is one
  passes through unchanged, whatever its sign or size; a stock that is \<open>NaN\<close>, absent or
  not a number becomes 0. Every field other than the stock is the one of the raw product.
\<close>

theorem normalized_stock_is_a_number:
  "length (normalizeProducts ps) = length ps
   \<and> (\<forall>i<length ps.
        (normalizeProducts ps ! i)\<lparr>stock := stock (ps ! i)\<rparr> = ps ! i
      \<and> (\<exists>n. stock (normalizeProducts ps ! i) = JNumber n \<and> \<not> isNaN n)
      \<and> (\<forall>n. stock (ps ! i) = JNumber n \<and> \<not> isNaN n \<longrightarrow>
            stock (normalizeProducts ps ! i) = JNumber n)
      \<and> (stock (ps ! i) = JNumber NaN \<or> (\<forall>n. stock (ps ! i) \<noteq> JNumber n) \<longrightarrow>
            stock (normalizeProducts ps ! i) = JNumber (Finite 0)))"
proof -
  have "(\<forall>n. v = JNumber n \<and> \<not> isNaN n \<longrightarrow> normalize_stock v = JNumber n)
      \<and> (v = JNumber NaN \<or> (\<forall>n. v \<noteq> JNumber n) \<longrightarrow> normalize_stock v = JNumber (Finite 0))"
    for v
    by (cases v) auto
  then show ?thesis
    using normalize_stock_number by (simp add: normalizeProducts_def)
qed

theorem normalized_stock_is_a_number_witness:
  "(1::nat) < length [product_returned, product_broken]
   \<and> stock ([product_returned, product_broken] ! 0) = JNumber (Finite (- 3))
   \<and> \<not> isNaN (Finite (- 3))
   \<and> stock (normalizeProducts [product_returned, product_broken] ! 0) = JNumber (Finite (- 3))
   \<and> (\<forall>n. stock ([product_returned, product_broken] ! 1) \<noteq> JNumber n)
   \<and> stock (normalizeProducts [product_returned, product_broken] ! 1) = JNumber (Finite 0)"
proof -
  let ?ps = "[product_returned, product_broken]"
  have h0: "(0::nat) < length ?ps" and h1: "(1::nat) < length ?ps"
    by simp_all
  have s0: "stock (?ps ! 0) = JNumber (Finite (- 3)) \<and> \<not> isNaN (Finite (- 3))"
    by (simp add: product_returned_def)
  have s1: "\<forall>n. stock (?ps ! 1) \<noteq> JNumber n"
    by (simp add: product_broken_def)
  from normalized_stock_is_a_number[of ?ps] h0 s0
  have r0: "stock (normalizeProducts ?ps ! 0) = JNumber (Finite (- 3))"
    by blast
  from normalized_stock_is_a_number[of ?ps] h1 s1
  have r1: "stock (normalizeProducts ?ps ! 1) = JNumber (Finite 0)"
    by blast
  show ?thesis
    using h1 s0 s1 r0 r1 by blast
qed

section \<open>The search stage\<close>

lemma startsWith_prefix: "startsWith w t \<longleftrightarrow> prefix t w"
  by (induction w t rule: startsWith.induct) auto

lemma includes_str_sublist: "includes_str s t \<longleftrightarrow> sublist t s"
  by (induction s) (auto simp: sublist_Cons_right startsWith_prefix)

lemma termMatches_iff:
  "termMatches p t \<longleftrightarrow>
     sublist t (toLowerCase (or_empty (sku p)))
     \<or> (\<exists>w\<in>set (nameWords p). prefix t w)
     \<or> sublist t (toLowerCase (or_empty (nivelDeJuego p)))
     \<or> sublist t (toLowerCase (or_empty (anio p)))"
  by (auto simp: termMatches_def includes_str_sublist startsWith_prefix list_ex_iff)

lemma searchMatches_iff:
  "searchMatches s p \<longleftrightarrow> (\<forall>t\<in>set (searchTerms s). termMatches p t)"
  by (simp add: searchMatches_def list_all_iff)

lemma toLowerCase_explicit:
  "toLowerCase s =
     map (\<lambda>c. if (65 \<le> (of_char c :: nat) \<and> (of_char c :: nat) \<le> 90)
                  \<or> (192 \<le> (of_char c :: nat) \<and> (of_char c :: nat) \<le> 222
                      \<and> (of_char c :: nat) \<noteq> 215)
               then char_of ((of_char c :: nat) + 32) else c) s"
  by (simp add: toLowerCase_def lower_char_def[abs_def] Let_def)

lemma replace_name_punctuation_explicit:
  "replace_name_punctuation s =
     map (\<lambda>c. if c = CHR ''-'' \<or> c = CHR ''/'' \<or> c = CHR ''('' \<or> c = CHR '')''
               then CHR '' '' else c) s"
  by (simp add: replace_name_punctuation_def is_name_punctuation_def)

text \<open>
  Claim C2. For a search text that is not empty, the search stage keeps exactly the products
  for which every term (the pieces of the lower-cased, trimmed search text between runs
  of white space) is a substring of the lower-cased SKU, or a prefix of a word of the name
  (lower-cased, the characters \<^verbatim>\<open>- / ( )\<close> replaced by spaces, split at white space), or a
  substring of the lower-cased level, or a substring of the lower-cased year. Lower-casing
  maps the letters \<^verbatim>\<open>A\<close> to \<^verbatim>\<open>Z\<close>, and the upper-case letters of Latin-1, to their
  lower-case letters and leaves every other character; the replacement turns each of
  \<^verbatim>\<open>- / ( )\<close> into a space and leaves every other character. So a product with
  \<^verbatim>\<open>avanzado\<close> in its level and \<^verbatim>\<open>2026\<close> in its year passes the search
  \<^verbatim>\<open>avanzado 2026\<close>, though the two terms are found in different fields.
\<close>

theorem search_keeps_products_matching_every_term:
  "(s \<noteq> [] \<longrightarrow>
      searchFilter s ps =
        filter (\<lambda>p. \<forall>t\<in>set (split_whitespace (trim (toLowerCase s))).
                  sublist t (toLowerCase (or_empty (sku p)))
                  \<or> (\<exists>w\<in>set (split_whitespace
                               (replace_name_punctuation (toLowerCase (or_empty (nombre p))))).
                        prefix t w)
                  \<or> sublist t (toLowerCase (or_empty (nivelDeJuego p)))
                  \<or> sublist t (toLowerCase (or_empty (anio p)))) ps)
   \<and> toLowerCase s =
        map (\<lambda>c. if (65 \<le> (of_char c :: nat) \<and> (of_char c :: nat) \<le> 90)
                     \<or> (192 \<le> (of_char c :: nat) \<and> (of_char c :: nat) \<le> 222
                         \<and> (of_char c :: nat) \<noteq> 215)
                  then char_of ((of_char c :: nat) + 32) else c) s
   \<and> toLowerCase ''ABCDEFGHIJKLMNOPQRSTUVWXYZ'' = ''abcdefghijklmnopqrstuvwxyz''
   \<and> toLowerCase [CHR 0xD1, CHR 0xC1, CHR 0xD7, CHR 0xF1] = [CHR 0xF1, CHR 0xE1, CHR 0xD7, CHR 0xF1]
   \<and> toLowerCase ''a1 (2026) - x/y'' = ''a1 (2026) - x/y''
   \<and> replace_name_punctuation s =
        map (\<lambda>c. if c = CHR ''-'' \<or> c = CHR ''/'' \<or> c = CHR ''('' \<or> c = CHR '')''
                  then CHR '' '' else c) s
   \<and> split_whitespace (replace_name_punctuation (toLowerCase ''Pro-Carbon (Edicion 2026)/Control''))
        = [''pro'', ''carbon'', ''edicion'', ''2026'', ''control'']
   \<and> split_whitespace (trim (toLowerCase ''  AVANZADO   2026 '')) = [''avanzado'', ''2026'']
   \<and> (sublist ''avanzado'' (toLowerCase (or_empty (nivelDeJuego p)))
        \<and> sublist ''2026'' (toLowerCase (or_empty (anio p)))
      \<longrightarrow> searchFilter ''avanzado 2026'' [p] = [p])"
proof -
  have terms: "searchTerms ''avanzado 2026'' = [''avanzado'', ''2026'']"
    by code_simp
  have general: "s \<noteq> [] \<longrightarrow> searchFilter s ps =
        filter (\<lambda>p. \<forall>t\<in>set (searchTerms s). termMatches p t) ps"
    by (simp add: searchFilter_def searchMatches_iff[abs_def])
  have particular: "sublist ''avanzado'' (toLowerCase (or_empty (nivelDeJuego p)))
        \<and> sublist ''2026'' (toLowerCase (or_empty (anio p)))
      \<longrightarrow> searchFilter ''avanzado 2026'' [p] = [p]"
    by (simp add: searchFilter_def searchMatches_iff terms termMatches_iff)
  have e1: "toLowerCase ''ABCDEFGHIJKLMNOPQRSTUVWXYZ'' = ''abcdefghijklmnopqrstuvwxyz''"
    by code_simp
  have e2: "toLowerCase [CHR 0xD1, CHR 0xC1, CHR 0xD7, CHR 0xF1]
              = [CHR 0xF1, CHR 0xE1, CHR 0xD7, CHR 0xF1]"
    by code_simp
  have e3: "toLowerCase ''a1 (2026) - x/y'' = ''a1 (2026) - x/y''"
    by code_simp
  have e4: "split_whitespace (replace_name_punctuation
              (toLowerCase ''Pro-Carbon (Edicion 2026)/Control''))
            = [''pro'', ''carbon'', ''edicion'', ''2026'', ''control'']"
    by code_simp
  have e5: "split_whitespace (trim (toLowerCase ''  AVANZADO   2026 '')) = [''avanzado'', ''2026'']"
    by code_simp
  have main: "s \<noteq> [] \<longrightarrow>
      searchFilter s ps =
        filter (\<lambda>p. \<forall>t\<in>set (split_whitespace (trim (toLowerCase s))).
                  sublist t (toLowerCase (or_empty (sku p)))
                  \<or> (\<exists>w\<in>set (split_whitespace
                               (replace_name_punctuation (toLowerCase (or_empty (nombre p))))).
                        prefix t w)
                  \<or> sublist t (toLowerCase (or_empty (nivelDeJuego p)))
                  \<or> sublist t (toLowerCase (or_empty (anio p)))) ps"
    using general by (simp add: termMatches_iff[abs_def] searchTerms_def nameWords_def)
  show ?thesis
    using main particular e1 e2 e3 e4 e5
      toLowerCase_explicit[of s] replace_name_punctuation_explicit[of s]
    by blast
qed

theorem search_keeps_products_matching_every_term_witness:
  "''  CARBON c-2 '' \<noteq> []
   \<and> split_whitespace (trim (toLowerCase ''  CARBON c-2 '')) = [''carbon'', ''c-2'']
   \<and> filter (\<lambda>p. \<forall>t\<in>set (split_whitespace (trim (toLowerCase ''  CARBON c-2 ''))).
                  sublist t (toLowerCase (or_empty (sku p)))
                  \<or> (\<exists>w\<in>set (split_whitespace
                               (replace_name_punctuation (toLowerCase (or_empty (nombre p))))).
                        prefix t w)
                  \<or> sublist t (toLowerCase (or_empty (nivelDeJuego p)))
                  \<or> sublist t (toLowerCase (or_empty (anio p)))) [product_A1, product_carbon]
       = [product_carbon]
   \<and> searchFilter ''  CARBON c-2 '' [product_A1, product_carbon] = [product_carbon]
   \<and> searchFilter ''CARBON'' [product_A1, product_carbon] = [product_carbon]
   \<and> searchFilter ''arbon'' [product_A1, product_carbon] = []
   \<and> searchFilter ''pc-2'' [product_A1, product_carbon] = [product_carbon]
   \<and> searchFilter ''A1'' [product_A1, product_carbon] = [product_A1]
   \<and> searchFilter ''MEDIO'' [product_A1, product_carbon] = [product_carbon]
   \<and> searchFilter ''edicion control'' [product_A1, product_carbon] = [product_carbon]
   \<and> searchFilter ''2026'' [product_A1, product_carbon] = [product_A1, product_carbon]
   \<and> searchFilter ''Pro 202'' [product_A1, product_carbon] = [product_A1, product_carbon]
   \<and> searchFilter ''paleta carbon'' [product_A1, product_carbon] = []
   \<and> searchFilter ''avanzado 2026'' [product_A1, product_B2, product_carbon] = [product_A1]
   \<and> sublist ''avanzado'' (toLowerCase (or_empty (nivelDeJuego product_A1)))
   \<and> sublist ''2026'' (toLowerCase (or_empty (anio product_A1)))
   \<and> \<not> sublist ''2026'' (toLowerCase (or_empty (nivelDeJuego product_A1)))
   \<and> \<not> sublist ''avanzado'' (toLowerCase (or_empty (anio product_A1)))"
proof -
  let ?s = "''  CARBON c-2 ''"
  let ?ps = "[product_A1, product_carbon]"
  have ne: "?s \<noteq> []"
    by simp
  have terms: "split_whitespace (trim (toLowerCase ?s)) = [''carbon'', ''c-2'']"
    by code_simp
  have ev: "searchFilter ?s ?ps = [product_carbon]"
    by code_simp
  have more: "searchFilter ''CARBON'' ?ps = [product_carbon]"
    "searchFilter ''arbon'' ?ps = []"
    "searchFilter ''pc-2'' ?ps = [product_carbon]"
    "searchFilter ''A1'' ?ps = [product_A1]"
    "searchFilter ''MEDIO'' ?ps = [product_carbon]"
    "searchFilter ''edicion control'' ?ps = [product_carbon]"
    "searchFilter ''2026'' ?ps = [product_A1, product_carbon]"
    "searchFilter ''Pro 202'' ?ps = [product_A1, product_carbon]"
    "searchFilter ''paleta carbon'' ?ps = []"
    "searchFilter ''avanzado 2026'' [product_A1, product_B2, product_carbon] = [product_A1]"
    by code_simp+
  have lv: "includes_str (toLowerCase (or_empty (nivelDeJuego product_A1))) ''avanzado''"
    by code_simp
  have yr: "includes_str (toLowerCase (or_empty (anio product_A1))) ''2026''"
    by code_simp
  have nlv: "\<not> includes_str (toLowerCase (or_empty (nivelDeJuego product_A1))) ''2026''"
    by code_simp
  have nyr: "\<not> includes_str (toLowerCase (or_empty (anio product_A1))) ''avanzado''"
    by code_simp
  from search_keeps_products_matching_every_term[of ?s ?ps product_A1] ne
  have "searchFilter ?s ?ps =
        filter (\<lambda>p. \<forall>t\<in>set (split_whitespace (trim (toLowerCase ?s))).
                  sublist t (toLowerCase (or_empty (sku p)))
                  \<or> (\<exists>w\<in>set (split_whitespace
                               (replace_name_punctuation (toLowerCase (or_empty (nombre p))))).
                        prefix t w)
                  \<or> sublist t (toLowerCase (or_empty (nivelDeJuego p)))
                  \<or> sublist t (toLowerCase (or_empty (anio p)))) ?ps"
    by blast
  with ev have spec: "filter (\<lambda>p. \<forall>t\<in>set (split_whitespace (trim (toLowerCase ?s))).
                  sublist t (toLowerCase (or_empty (sku p)))
                  \<or> (\<exists>w\<in>set (split_whitespace
                               (replace_name_punctuation (toLowerCase (or_empty (nombre p))))).
                        prefix t w)
                  \<or> sublist t (toLowerCase (or_empty (nivelDeJuego p)))
                  \<or> sublist t (toLowerCase (or_empty (anio p)))) ?ps
       = [product_carbon]"
    by simp
  show ?thesis
    using ne terms spec ev more lv yr nlv nyr unfolding includes_str_sublist by blast
qed

section \<open>The pipeline as a whole\<close>

lemma mset_sort_insert: "mset (sort_insert cmp x ys) = add_mset x (mset ys)"
  by (induction ys) auto

lemma mset_array_sort: "mset (array_sort cmp xs) = mset xs"
  by (induction xs) (auto simp: array_sort_def mset_sort_insert)

lemma mset_priceSortStage: "mset (priceSortStage order acc ps) = mset ps"
  by (simp add: priceSortStage_def mset_array_sort)

lemma set_priceSortStage: "set (priceSortStage order acc ps) = set ps"
  using mset_priceSortStage by (metis set_mset_mset)

lemma candidates_filter: "candidates P F = filter (candidate F) P"
  unfolding candidates_def searchFilter_def brandFilter_def categoryFilter_def
    stockFilter_def skuFilter_def
  by (auto simp: candidate_def intro: filter_cong)

lemma inStock_iff: "inStock p \<longleftrightarrow> (\<exists>n. stock p = JNumber n \<and> js_greater n (Finite 0))"
  by (cases "stock p") (auto simp: inStock_def js_greater_def)

text \<open>
  Claim C7. When out-of-stock products are hidden, every product of the filtered result has
  a stock that is a number greater than 0. When they are shown, the stock stage returns its
  input: it puts no condition on the stock.
\<close>

theorem hidden_out_of_stock_products_have_positive_stock:
  "(\<not> showOutOfStock F \<longrightarrow>
      (\<forall>p\<in>set (filteredProducts P F acc). \<exists>n. stock p = JNumber n \<and> js_greater n (Finite 0)))
   \<and> stockFilter True ps = ps
   \<and> stockFilter False ps = filter (\<lambda>p. js_greater (stockNum (stock p)) (Finite 0)) ps"
proof -
  have "\<exists>n. stock p = JNumber n \<and> js_greater n (Finite 0)"
    if "\<not> showOutOfStock F" and "p \<in> set (filteredProducts P F acc)" for p
  proof -
    from that have "inStock p"
      by (auto simp: filteredProducts_def set_priceSortStage candidates_filter candidate_def)
    then show ?thesis
      by (simp add: inStock_iff)
  qed
  moreover have "stockFilter False ps = filter (\<lambda>p. js_greater (stockNum (stock p)) (Finite 0)) ps"
    by (simp add: stockFilter_def inStock_def[abs_def])
  ultimately show ?thesis
    by (simp add: stockFilter_def)
qed

theorem hidden_out_of_stock_products_have_positive_stock_witness:
  "\<not> showOutOfStock scenario_filter
   \<and> product_A1 \<in> set (filteredProducts scenario_products scenario_filter (\<lambda>_. False))
   \<and> (\<exists>n. stock product_A1 = JNumber n \<and> js_greater n (Finite 0))"
proof -
  have h: "\<not> showOutOfStock scenario_filter"
    by (simp add: scenario_filter_def)
  have "candidates scenario_products scenario_filter = [product_A1]"
    by code_simp
  moreover have "priceSort scenario_filter = SortDefault"
    by (simp add: scenario_filter_def)
  ultimately have r: "filteredProducts scenario_products scenario_filter (\<lambda>_. False) = [product_A1]"
    by (simp add: filteredProducts_def priceSortStage_def)
  show ?thesis
    using h r
      hidden_out_of_stock_products_have_positive_stock
        [of scenario_filter scenario_products "\<lambda>_. False" "[]"]
    by simp
qed

text \<open>
  Claim C8. Every product of the filtered result is a product of the input list, and none
  occurs more often than there: the candidates are a subsequence of the input, and the
  result is the candidates, reordered by the price stage when a price order is selected and
  as they are otherwise.
\<close>

theorem filtered_products_come_from_the_list:
  "set (filteredProducts P F acc) \<subseteq> set P
   \<and> mset (filteredProducts P F acc) \<subseteq># mset P
   \<and> mset (filteredProducts P F acc) = mset (candidates P F)
   \<and> subseq (candidates P F) P
   \<and> filteredProducts P (F\<lparr>priceSort := SortDefault\<rparr>) acc = candidates P F"
proof -
  have "mset (filter (candidate F) P) \<subseteq># mset P"
    by simp
  moreover have "candidates P (F\<lparr>priceSort := SortDefault\<rparr>) = candidates P F"
    by (simp add: candidates_def)
  moreover have "priceSortStage SortDefault acc xs = xs" for xs
    by (simp add: priceSortStage_def)
  moreover have "set (filter (candidate F) P) \<subseteq> set P"
    by auto
  ultimately show ?thesis
    by (simp add: filteredProducts_def set_priceSortStage mset_priceSortStage
        candidates_filter)
qed

lemma includes_str_empty: "includes_str s []"
  by (cases s) auto

lemma lower_char_whitespace: "is_whitespace c \<Longrightarrow> lower_char c = c"
  by (auto simp: is_whitespace_def lower_char_def Let_def)

lemma blank_searchTerms:
  assumes "\<forall>c\<in>set s. is_whitespace c"
  shows "searchTerms s = [[]]"
proof -
  have low: "toLowerCase s = s"
    using assms by (simp add: toLowerCase_def lower_char_whitespace map_idI)
  have drop: "dropWhile is_whitespace s = []"
    using assms by simp
  show ?thesis
    unfolding searchTerms_def trim_def split_whitespace_def low drop by simp
qed

lemma blank_searchFilter:
  assumes "\<forall>c\<in>set s. is_whitespace c"
  shows "searchFilter s ps = ps"
  by (simp add: searchFilter_def searchMatches_def[abs_def] blank_searchTerms[OF assms]
      termMatches_def includes_str_empty)

text \<open>
  Claim C9. With the empty search text the search stage returns its input, and so it does
  with a search text that holds white space only: the result is then the one of the other
  stages alone.
\<close>

theorem blank_search_is_identity:
  "searchFilter [] ps = ps
   \<and> ((\<forall>c\<in>set s. is_whitespace c) \<longrightarrow> searchFilter s ps = ps)
   \<and> ((\<forall>c\<in>set (searchTerm F). is_whitespace c) \<longrightarrow>
        filteredProducts P F acc =
          priceSortStage (priceSort F) acc
            (brandFilter (selectedBrand F)
              (categoryFilter (selectedCategory F)
                (stockFilter (showOutOfStock F) (skuFilter P)))))"
  using blank_searchFilter
  by (simp add: filteredProducts_def candidates_def searchFilter_def)

theorem blank_search_is_identity_witness:
  "list_all is_whitespace ''  ''
   \<and> searchFilter ''  '' scenario_products = scenario_products
   \<and> filteredProducts scenario_products (scenario_filter\<lparr>searchTerm := ''  ''\<rparr>) (\<lambda>_. False)
       = [product_A1]"
proof -
  let ?F = "scenario_filter\<lparr>searchTerm := ''  ''\<rparr>"
  have h: "\<forall>c\<in>set ''  ''. is_whitespace c"
    by (simp add: is_whitespace_def)
  then have h': "\<forall>c\<in>set (searchTerm ?F). is_whitespace c"
    by simp
  have "brandFilter (selectedBrand ?F)
          (categoryFilter (selectedCategory ?F)
            (stockFilter (showOutOfStock ?F) (skuFilter scenario_products))) = [product_A1]"
    by code_simp
  moreover have "priceSort ?F = SortDefault"
    by (simp add: scenario_filter_def)
  ultimately have r: "priceSortStage (priceSort ?F) (\<lambda>_. False)
            (brandFilter (selectedBrand ?F)
              (categoryFilter (selectedCategory ?F)
                (stockFilter (showOutOfStock ?F) (skuFilter scenario_products)))) = [product_A1]"
    by (simp add: priceSortStage_def)
  have l: "list_all is_whitespace ''  ''"
    using h unfolding list_all_iff .
  show ?thesis
    using h h' r l
      blank_search_is_identity[of scenario_products "''  ''" ?F scenario_products "\<lambda>_. False"]
    by simp
qed

section \<open>The price sort is stable\<close>

lemma is_price_getReferencePrice: "is_price (getReferencePrice acc p)"
proof (cases "acc p")
  case False
  then show ?thesis
    by (simp add: getReferencePrice_mathInt round_double_of_int is_price_double_of_int)
next
  case True
  show ?thesis
  proof (cases "price_mathInt (precio3 p)" rule: double_of_int_cases)
    case (finite v)
    have "round_double (real_of_int v * 2) = double_of_int (v * 2)"
      using round_double_of_int[of "v * 2"] by simp
    then show ?thesis
      using True finite
      by (simp add: getReferencePrice_mathInt round_double_of_int is_price_double_of_int)
  next
    case pos
    then show ?thesis
      using True by (simp add: getReferencePrice_mathInt round_double_of_int)
  next
    case neg
    then show ?thesis
      using True by (simp add: getReferencePrice_mathInt round_double_of_int)
  qed
qed

lemma price_difference_positive:
  assumes "is_price a" and "is_price b"
  shows "js_greater (js_sub a b) (Finite 0) \<longleftrightarrow> price_rank b < price_rank a"
proof (cases a; cases b)
  fix x y
  assume ab: "a = Finite x" "b = Finite y"
  with assms obtain i j :: int where ij: "x = of_int i" "y = of_int j"
    by auto
  have "round_double (real_of_int i - real_of_int j) = double_of_int (i - j)"
    using round_double_of_int[of "i - j"] by simp
  then show ?thesis
    by (simp add: ab ij js_greater_def double_of_int_positive)
qed (use assms in \<open>auto simp: js_greater_def\<close>)

lemma price_rank_eq:
  assumes "is_price a" and "is_price b"
  shows "price_rank a = price_rank b \<longleftrightarrow> a = b"
  using assms by (cases a; cases b) auto

lemma price_rank_less:
  assumes "is_price a" and "is_price b"
  shows "js_less a b \<longleftrightarrow> price_rank a < price_rank b"
  using assms by (cases a; cases b) auto

lemma priceCompare_asc:
  "js_greater (priceCompare SortAsc acc x y) (Finite 0) \<longleftrightarrow> \<not> price_key acc x \<le> price_key acc y"
  by (simp add: priceCompare_def price_key_def not_le
      price_difference_positive[OF is_price_getReferencePrice is_price_getReferencePrice])

lemma priceCompare_desc:
  "js_greater (priceCompare SortDesc acc x y) (Finite 0)
     \<longleftrightarrow> \<not> - price_key acc x \<le> - price_key acc y"
  by (simp add: priceCompare_def price_key_def not_le
      price_difference_positive[OF is_price_getReferencePrice is_price_getReferencePrice])

lemma sort_insert_asc:
  "sort_insert (priceCompare SortAsc acc) x ys = insort_key (price_key acc) x ys"
  by (induction ys) (simp_all add: priceCompare_asc)

lemma sort_insert_desc:
  "sort_insert (priceCompare SortDesc acc) x ys = insort_key (\<lambda>p. - price_key acc p) x ys"
  by (induction ys) (simp_all add: priceCompare_desc)

lemma priceSortStage_asc: "priceSortStage SortAsc acc xs = sort_key (price_key acc) xs"
  by (induction xs) (simp_all add: priceSortStage_def array_sort_def sort_insert_asc)

lemma priceSortStage_desc:
  "priceSortStage SortDesc acc xs = sort_key (\<lambda>p. - price_key acc p) xs"
  by (induction xs) (simp_all add: priceSortStage_def array_sort_def sort_insert_desc)

text \<open>
  The insertion sort is no restriction: any list that permutes the input, is ordered by
  price and keeps the input order among equal prices is the result of the price stage.
\<close>

lemma price_sort_asc_unique:
  assumes "mset ys = mset xs"
    and "sorted (map (price_key acc) ys)"
    and "\<And>p. p \<in> set ys \<Longrightarrow>
           filter (\<lambda>q. price_key acc p = price_key acc q) ys
             = filter (\<lambda>q. price_key acc p = price_key acc q) xs"
  shows "priceSortStage SortAsc acc xs = ys"
  unfolding priceSortStage_asc
proof (rule properties_for_sort_key)
  show "mset ys = mset xs"
    by (rule assms(1))
  show "sorted (map (price_key acc) ys)"
    by (rule assms(2))
  show "filter (\<lambda>q. price_key acc p = price_key acc q) ys
          = filter (\<lambda>q. price_key acc p = price_key acc q) xs" if "p \<in> set ys" for p
    by (rule assms(3)[OF that])
qed

lemma price_sort_desc_unique:
  assumes "mset ys = mset xs"
    and "sorted (rev (map (price_key acc) ys))"
    and "\<And>p. p \<in> set ys \<Longrightarrow>
           filter (\<lambda>q. price_key acc p = price_key acc q) ys
             = filter (\<lambda>q. price_key acc p = price_key acc q) xs"
  shows "priceSortStage SortDesc acc xs = ys"
  unfolding priceSortStage_desc
proof (rule properties_for_sort_key)
  show "mset ys = mset xs"
    by (rule assms(1))
  show "filter (\<lambda>q. - price_key acc p = - price_key acc q) ys
          = filter (\<lambda>q. - price_key acc p = - price_key acc q) xs" if "p \<in> set ys" for p
    using assms(3)[OF that] by simp
  from assms(2) have "sorted_wrt (\<lambda>a b. price_key acc b \<le> price_key acc a) ys"
    by (simp add: sorted_wrt_rev sorted_wrt_map flip: rev_map)
  then show "sorted (map (\<lambda>p. - price_key acc p) ys)"
    by (simp add: sorted_wrt_map)
qed

lemma priceSortStage_key:
  "priceSortStage order acc xs =
     (case order of SortDefault \<Rightarrow> xs
      | SortAsc \<Rightarrow> sort_key (price_key acc) xs
      | SortDesc \<Rightarrow> sort_key (\<lambda>p. - price_key acc p) xs)"
  by (cases order) (simp_all add: priceSortStage_asc priceSortStage_desc, simp add: priceSortStage_def)

lemma price_filter_key:
  "filter (\<lambda>p. getReferencePrice acc p = v) xs =
     (if is_price v then filter (\<lambda>p. price_key acc p = price_rank v) xs else [])"
proof (cases "is_price v")
  case True
  then show ?thesis
    by (simp add: price_key_def price_rank_eq[OF is_price_getReferencePrice])
next
  case False
  then have "getReferencePrice acc p \<noteq> v" for p
    using is_price_getReferencePrice[of acc p] by auto
  with False show ?thesis
    by simp
qed

lemma priceSortStage_idem:
  "priceSortStage order acc (priceSortStage order acc xs) = priceSortStage order acc xs"
  by (cases order) (simp_all add: priceSortStage_key sort_key_id_if_sorted)

lemma priceSortStage_stable:
  "filter (\<lambda>p. getReferencePrice acc p = v) (priceSortStage order acc xs)
     = filter (\<lambda>p. getReferencePrice acc p = v) xs"
proof -
  have "filter (\<lambda>p. price_key acc p = r) (sort_key (\<lambda>p. - price_key acc p) xs)
        = filter (\<lambda>p. price_key acc p = r) xs" for r
    using sort_key_stable[of "\<lambda>p. - price_key acc p" "- r" xs] by simp
  then show ?thesis
    by (cases order) (simp_all add: priceSortStage_key price_filter_key sort_key_stable)
qed

lemma sorted_desc_keys:
  "sorted (rev (map (price_key acc) (priceSortStage SortDesc acc xs)))"
proof -
  have "sorted (map (\<lambda>p. - price_key acc p) (priceSortStage SortDesc acc xs))"
    by (simp add: priceSortStage_key)
  then have "sorted_wrt (\<lambda>a b. price_key acc b \<le> price_key acc a) (priceSortStage SortDesc acc xs)"
    by (simp add: sorted_wrt_map)
  then show ?thesis
    by (simp add: sorted_wrt_rev sorted_wrt_map flip: rev_map)
qed

lemma desc_after_asc_keys:
  "map (price_key acc) (priceSortStage SortDesc acc (priceSortStage SortAsc acc xs))
     = rev (map (price_key acc) (priceSortStage SortAsc acc xs))"
proof -
  let ?A = "priceSortStage SortAsc acc xs"
  let ?D = "priceSortStage SortDesc acc ?A"
  have "mset (rev (map (price_key acc) ?D)) = mset (map (price_key acc) ?A)"
    by (simp add: priceSortStage_key)
  moreover have "sorted (rev (map (price_key acc) ?D))"
    by (rule sorted_desc_keys)
  ultimately have "sort (map (price_key acc) ?A) = rev (map (price_key acc) ?D)"
    by (rule properties_for_sort)
  moreover have "sort (map (price_key acc) ?A) = map (price_key acc) ?A"
    by (simp add: priceSortStage_key sort_key_id_if_sorted)
  ultimately have "rev (map (price_key acc) ?D) = map (price_key acc) ?A"
    by simp
  then show ?thesis
    by (metis rev_rev_ident)
qed

lemma desc_after_asc_prices:
  "map (getReferencePrice acc) (priceSortStage SortDesc acc (priceSortStage SortAsc acc xs))
     = rev (map (getReferencePrice acc) (priceSortStage SortAsc acc xs))"
proof -
  let ?A = "priceSortStage SortAsc acc xs"
  let ?D = "priceSortStage SortDesc acc ?A"
  have inj: "inj_on price_rank (set (map (getReferencePrice acc) ?D)
                                 \<union> set (rev (map (getReferencePrice acc) ?A)))"
    by (rule inj_onI) (auto simp: price_rank_eq[OF is_price_getReferencePrice is_price_getReferencePrice])
  have "map price_rank (map (getReferencePrice acc) ?D)
          = map price_rank (rev (map (getReferencePrice acc) ?A))"
    using desc_after_asc_keys[of acc xs] by (simp add: price_key_def[abs_def] comp_def rev_map)
  then show ?thesis
    using inj by (simp only: inj_on_map_eq_map)
qed

lemma desc_after_asc_distinct:
  assumes "distinct (map (getReferencePrice acc) xs)"
  shows "priceSortStage SortDesc acc (priceSortStage SortAsc acc xs)
           = rev (priceSortStage SortAsc acc xs)"
proof -
  let ?k = "price_key acc"
  let ?A = "sort_key ?k xs"
  have "inj_on price_rank (set (map (getReferencePrice acc) xs))"
    by (rule inj_onI) (auto simp: price_rank_eq[OF is_price_getReferencePrice is_price_getReferencePrice])
  with assms have "distinct (map price_rank (map (getReferencePrice acc) xs))"
    by (auto simp: distinct_map intro: comp_inj_on)
  then have dk: "distinct (map ?k xs)"
    by (simp add: price_key_def[abs_def] comp_def)
  then have dA: "distinct (map ?k ?A)"
    by (metis distinct_map distinct_sort set_sort)
  have single: "filter (\<lambda>x. ?k p = ?k x) ys = [p]" if "p \<in> set ys" "distinct (map ?k ys)" for p ys
    using that
  proof (induction ys)
    case Nil
    then show ?case by simp
  next
    case (Cons y ys)
    then show ?case
      by (auto simp: image_iff intro!: filter_False)
  qed
  have "sort_key (\<lambda>p. - ?k p) ?A = rev ?A"
  proof (rule properties_for_sort_key)
    show "mset (rev ?A) = mset ?A"
      by simp
    show "filter (\<lambda>x. - ?k p = - ?k x) (rev ?A) = filter (\<lambda>x. - ?k p = - ?k x) ?A"
      if "p \<in> set (rev ?A)" for p
    proof -
      have "filter (\<lambda>x. ?k p = ?k x) (rev ?A) = [p]"
        using that dA by (intro single) (simp_all add: flip: rev_map)
      moreover have "filter (\<lambda>x. ?k p = ?k x) ?A = [p]"
        using that dA by (intro single) simp_all
      ultimately show ?thesis
        by simp
    qed
    have "sorted (map ?k ?A)"
      by simp
    then have "sorted_wrt (\<lambda>a b. ?k a \<le> ?k b) ?A"
      by (simp add: sorted_wrt_map)
    then have "sorted_wrt (\<lambda>a b. ?k b \<le> ?k a) (rev ?A)"
      by (simp add: sorted_wrt_rev)
    then show "sorted (map (\<lambda>p. - ?k p) (rev ?A))"
      by (simp add: sorted_wrt_map)
  qed
  then show ?thesis
    by (simp add: priceSortStage_key)
qed


lemma sorted_asc_prices:
  "sorted_wrt (\<lambda>a b. \<not> js_less (getReferencePrice acc b) (getReferencePrice acc a))
     (priceSortStage SortAsc acc xs)"
proof -
  have "sorted (map (price_key acc) (priceSortStage SortAsc acc xs))"
    by (simp add: priceSortStage_key)
  then show ?thesis
    by (simp add: sorted_wrt_map price_key_def not_less
        price_rank_less[OF is_price_getReferencePrice is_price_getReferencePrice])
qed

lemma sorted_desc_prices:
  "sorted_wrt (\<lambda>a b. \<not> js_less (getReferencePrice acc a) (getReferencePrice acc b))
     (priceSortStage SortDesc acc xs)"
proof -
  have "sorted (map (\<lambda>p. - price_key acc p) (priceSortStage SortDesc acc xs))"
    by (simp add: priceSortStage_key)
  then show ?thesis
    by (simp add: sorted_wrt_map price_key_def not_less
        price_rank_less[OF is_price_getReferencePrice is_price_getReferencePrice])
qed

text \<open>
  Claim C4. The price stage is a stable sort by reference price: it permutes its input,
  the ascending result has its reference prices in non-decreasing order and the
  descending result in non-increasing order, and
  (1) applying it twice with the same order gives what applying it once gives;
  (2) the products with one given reference price stand in the result in the order they had
  in the input;
  (3) sorting the ascending result in descending order reverses the sequence of reference
  prices and leaves the products of each reference price in the order they had; when the
  reference prices are pairwise distinct, the descending result is the reverse of the
  ascending one.
  The reference prices are the doubles the code computes: two prices that round to the
  same double are equal, and so are two prices that overflow to \<open>Infinity\<close>.
\<close>

theorem price_sort_is_stable:
  "mset (priceSortStage order acc xs) = mset xs
   \<and> sorted_wrt (\<lambda>a b. \<not> js_less (getReferencePrice acc b) (getReferencePrice acc a))
        (priceSortStage SortAsc acc xs)
   \<and> sorted_wrt (\<lambda>a b. \<not> js_less (getReferencePrice acc a) (getReferencePrice acc b))
        (priceSortStage SortDesc acc xs)
   \<and> priceSortStage order acc (priceSortStage order acc xs) = priceSortStage order acc xs
   \<and> filter (\<lambda>p. getReferencePrice acc p = v) (priceSortStage order acc xs)
       = filter (\<lambda>p. getReferencePrice acc p = v) xs
   \<and> map (getReferencePrice acc) (priceSortStage SortDesc acc (priceSortStage SortAsc acc xs))
       = rev (map (getReferencePrice acc) (priceSortStage SortAsc acc xs))
   \<and> filter (\<lambda>p. getReferencePrice acc p = v)
         (priceSortStage SortDesc acc (priceSortStage SortAsc acc xs))
       = filter (\<lambda>p. getReferencePrice acc p = v) (priceSortStage SortAsc acc xs)
   \<and> (distinct (map (getReferencePrice acc) xs) \<longrightarrow>
        priceSortStage SortDesc acc (priceSortStage SortAsc acc xs)
          = rev (priceSortStage SortAsc acc xs))"
  using sorted_asc_prices[of acc xs] sorted_desc_prices[of acc xs]
    priceSortStage_idem[of order acc xs] desc_after_asc_prices[of acc xs]
    desc_after_asc_distinct[of acc xs]
  by (simp add: mset_priceSortStage priceSortStage_stable)

theorem price_sort_is_stable_witness:
  "distinct (map (getReferencePrice accessory_R7) [product_A1, product_B2, product_returned])
   \<and> priceSortStage SortAsc accessory_R7 [product_A1, product_B2, product_returned]
       = [product_B2, product_returned, product_A1]
   \<and> priceSortStage SortDesc accessory_R7
         (priceSortStage SortAsc accessory_R7 [product_A1, product_B2, product_returned])
       = [product_A1, product_returned, product_B2]
   \<and> priceSortStage SortAsc accessory_R7 [product_P1, product_B2, product_P2]
       = [product_B2, product_P1, product_P2]
   \<and> priceSortStage SortDesc accessory_R7 [product_P1, product_B2, product_P2]
       = [product_P1, product_P2, product_B2]
   \<and> getReferencePrice accessory_R7 product_overflow = PosInfinity
   \<and> priceSortStage SortAsc accessory_R7 [product_overflow, product_A1, product_overflow2]
       = [product_A1, product_overflow, product_overflow2]
   \<and> priceSortStage SortDesc accessory_R7 [product_overflow, product_A1, product_overflow2]
       = [product_overflow, product_overflow2, product_A1]"
proof -
  let ?xs = "[product_A1, product_B2, product_returned]"
  have acc: "\<not> accessory_R7 product_A1" "\<not> accessory_R7 product_B2"
    "accessory_R7 product_returned" "\<not> accessory_R7 product_P1" "\<not> accessory_R7 product_P2"
    by code_simp+
  have ints: "price_mathInt (precio3 product_A1) = 1000"
    "price_mathInt (precio3 product_B2) = 200"
    "price_mathInt (precio3 product_returned) = 300"
    "price_mathInt (precio3 product_P1) = 9007199254740993"
    "price_mathInt (precio3 product_P2) = 9007199254740992"
    by code_simp+
  have big: "double_of_int 9007199254740993 = Finite 9007199254740992"
    "double_of_int 9007199254740992 = Finite 9007199254740992"
    "double_of_int 9007199254740792 = Finite 9007199254740792"
    "double_of_int (- 9007199254740792) = Finite (- 9007199254740792)"
    by code_simp+
  have prices: "getReferencePrice accessory_R7 product_A1 = Finite 1000"
    "getReferencePrice accessory_R7 product_B2 = Finite 200"
    "getReferencePrice accessory_R7 product_returned = Finite 600"
    using getReferencePrice_exact[of product_A1 accessory_R7]
      getReferencePrice_exact[of product_B2 accessory_R7]
      getReferencePrice_exact[of product_returned accessory_R7]
    by (simp_all add: ints acc)
  have rounded: "getReferencePrice accessory_R7 product_P1 = Finite 9007199254740992"
    "getReferencePrice accessory_R7 product_P2 = Finite 9007199254740992"
    using round_double_of_int[of 9007199254740993] round_double_of_int[of 9007199254740992]
    by (simp_all add: getReferencePrice_mathInt ints acc big)
  have d: "distinct (map (getReferencePrice accessory_R7) ?xs)"
    by (simp add: prices)
  have keys: "price_key accessory_R7 product_A1 = 1000"
    "price_key accessory_R7 product_B2 = 200"
    "price_key accessory_R7 product_returned = 600"
    "price_key accessory_R7 product_P1 = 9007199254740992"
    "price_key accessory_R7 product_P2 = 9007199254740992"
    by (simp_all add: price_key_def prices rounded)
  have a: "priceSortStage SortAsc accessory_R7 ?xs = [product_B2, product_returned, product_A1]"
    by (simp add: priceSortStage_key keys)
  have t1: "priceSortStage SortAsc accessory_R7 [product_P1, product_B2, product_P2]
              = [product_B2, product_P1, product_P2]"
    by (simp add: priceSortStage_key keys)
  have t2: "priceSortStage SortDesc accessory_R7 [product_P1, product_B2, product_P2]
              = [product_P1, product_P2, product_B2]"
    by (simp add: priceSortStage_key keys)
  have nacc: "\<not> accessory_R7 product_overflow" "\<not> accessory_R7 product_overflow2"
    by (simp_all add: accessory_R7_def product_overflow_def product_overflow2_def)
  have hints: "price_mathInt (precio3 product_overflow) = 10 ^ 309"
    "price_mathInt (precio3 product_overflow2) = 10 ^ 309"
    using price_mathInt_overflow by (simp_all add: product_overflow_def product_overflow2_def)
  have inf: "getReferencePrice accessory_R7 product_overflow = PosInfinity"
    "getReferencePrice accessory_R7 product_overflow2 = PosInfinity"
    by (simp_all only: getReferencePrice_mathInt nacc hints if_False round_double_of_int
        double_of_int_huge)
  have ikeys: "price_key accessory_R7 product_overflow = 2 ^ 1024"
    "price_key accessory_R7 product_overflow2 = 2 ^ 1024"
    by (simp_all add: price_key_def inf)
  have t3: "priceSortStage SortAsc accessory_R7 [product_overflow, product_A1, product_overflow2]
              = [product_A1, product_overflow, product_overflow2]"
    by (simp add: priceSortStage_key keys ikeys)
  have t4: "priceSortStage SortDesc accessory_R7 [product_overflow, product_A1, product_overflow2]
              = [product_overflow, product_overflow2, product_A1]"
    by (simp add: priceSortStage_key keys ikeys)
  from price_sort_is_stable[of SortAsc accessory_R7 ?xs "Finite 0"] d
  have "priceSortStage SortDesc accessory_R7 (priceSortStage SortAsc accessory_R7 ?xs)
          = rev (priceSortStage SortAsc accessory_R7 ?xs)"
    by blast
  then show ?thesis
    using d a t1 t2 t3 t4 inf(1) by simp
qed

section \<open>Properties of the facet lists\<close>

lemma set_first_seen: "set (first_seen xs) = set xs"
  by (induction xs) auto

lemma distinct_first_seen: "distinct (first_seen xs)"
  by (induction xs) auto

lemma first_seen_filter: "first_seen (filter P xs) = filter P (first_seen xs)"
proof (induction xs)
  case Nil
  then show ?case by simp
next
  case (Cons x xs)
  show ?case
  proof (cases "P x")
    case True
    then show ?thesis
      using Cons.IH by (simp add: conj_commute)
  next
    case False
    then have "x \<notin> set (filter P (first_seen xs))"
      by simp
    then have "filter (\<lambda>y. y \<noteq> x) (filter P (first_seen xs)) = filter P (first_seen xs)"
      by (intro filter_True) auto
    with False show ?thesis
      using Cons.IH by (simp add: conj_commute)
  qed
qed

lemma foldl_set_add:
  "foldl set_add acc xs = acc @ first_seen (filter (\<lambda>x. x \<notin> set acc) xs)"
proof (induction xs arbitrary: acc)
  case Nil
  then show ?case by simp
next
  case (Cons x xs)
  show ?case
  proof (cases "x \<in> set acc")
    case True
    then show ?thesis
      using Cons.IH[of acc] by (simp add: set_add_def)
  next
    case False
    have "foldl set_add (acc @ [x]) xs
          = (acc @ [x]) @ first_seen (filter (\<lambda>y. y \<notin> set (acc @ [x])) xs)"
      by (rule Cons.IH)
    also have "filter (\<lambda>y. y \<notin> set (acc @ [x])) xs
          = filter (\<lambda>y. y \<noteq> x) (filter (\<lambda>y. y \<notin> set acc) xs)"
      by (auto intro: filter_cong)
    finally show ?thesis
      using False by (simp add: set_add_def first_seen_filter)
  qed
qed

lemma new_Set_first_seen: "new_Set xs = first_seen xs"
  by (simp add: new_Set_def foldl_set_add)

lemma validSku_stock: "validSku (p\<lparr>stock := v\<rparr>) = validSku p"
  by (simp add: validSku_def)

lemma trim_empty_iff: "trim s = [] \<longleftrightarrow> (\<forall>c\<in>set s. is_whitespace c)"
proof
  assume "\<forall>c\<in>set s. is_whitespace c"
  then have d: "dropWhile is_whitespace s = []"
    by simp
  show "trim s = []"
    unfolding trim_def d by simp
next
  assume t: "trim s = []"
  show "\<forall>c\<in>set s. is_whitespace c"
  proof (rule ccontr)
    assume "\<not> (\<forall>c\<in>set s. is_whitespace c)"
    then have ne: "dropWhile is_whitespace s \<noteq> []"
      by (simp add: dropWhile_eq_Nil_conv)
    then have "\<not> is_whitespace (hd (dropWhile is_whitespace s))"
      by (rule hd_dropWhile)
    moreover have "hd (dropWhile is_whitespace s) \<in> set (rev (dropWhile is_whitespace s))"
      using ne by simp
    ultimately have "dropWhile is_whitespace (rev (dropWhile is_whitespace s)) \<noteq> []"
      by (auto simp: dropWhile_eq_Nil_conv)
    with t show False
      by (simp add: trim_def)
  qed
qed

lemma validSku_iff:
  "validSku p \<longleftrightarrow> (\<exists>s. sku p = Some s \<and> (\<exists>c\<in>set s. \<not> is_whitespace c))"
  by (cases "sku p") (auto simp: validSku_def trim_empty_iff)

lemma truthy_iff: "truthy b \<longleftrightarrow> b \<noteq> None \<and> b \<noteq> Some []"
  by (cases b) auto

text \<open>
  Claim C6. The category list is the sentinel followed by the categories of the products
  with a valid SKU, de-duplicated in first-seen order; a SKU is valid when it is present
  and has a character that is not white space, so an absent, empty or white-space-only SKU
  is not. The brand list is the sentinel followed by the brands that are neither absent
  nor empty, de-duplicated in first-seen order, of the valid products when the sentinel is
  the selected category and of the valid products of the selected category otherwise.
  Neither list reads the stock: replacing every stock by any other value leaves both lists
  as they are, and so does the out-of-stock flag.
\<close>

theorem facet_lists_over_valid_products:
  "categories P
     = Some Todos # first_seen (map categoria
         (filter (\<lambda>p. \<exists>s. sku p = Some s \<and> (\<exists>c\<in>set s. \<not> is_whitespace c)) P))
   \<and> availableBrands P Todos
       = Some Todos # first_seen (filter (\<lambda>b. b \<noteq> None \<and> b \<noteq> Some []) (map marca
           (filter (\<lambda>p. \<exists>s. sku p = Some s \<and> (\<exists>c\<in>set s. \<not> is_whitespace c)) P)))
   \<and> (cat \<noteq> Todos \<longrightarrow>
        availableBrands P cat
          = Some Todos # first_seen (filter (\<lambda>b. b \<noteq> None \<and> b \<noteq> Some []) (map marca
              (filter (\<lambda>p. (\<exists>s. sku p = Some s \<and> (\<exists>c\<in>set s. \<not> is_whitespace c))
                            \<and> categoria p = Some cat) P))))
   \<and> distinct (tl (categories P)) \<and> distinct (tl (availableBrands P cat))
   \<and> set (tl (categories P))
       = categoria ` {p \<in> set P. \<exists>s. sku p = Some s \<and> (\<exists>c\<in>set s. \<not> is_whitespace c)}
   \<and> None \<notin> set (availableBrands P cat) \<and> Some [] \<notin> set (availableBrands P cat)
   \<and> categories (map (\<lambda>p. p\<lparr>stock := f p\<rparr>) P) = categories P
   \<and> availableBrands (map (\<lambda>p. p\<lparr>stock := f p\<rparr>) P) cat = availableBrands P cat
   \<and> availableBrands P (selectedCategory (F\<lparr>showOutOfStock := b\<rparr>))
       = availableBrands P (selectedCategory F)"
proof -
  have c: "categories P
     = Some Todos # first_seen (map categoria
         (filter (\<lambda>p. \<exists>s. sku p = Some s \<and> (\<exists>c\<in>set s. \<not> is_whitespace c)) P))"
    by (simp add: categories_def new_Set_first_seen validSku_iff[abs_def])
  have b1: "availableBrands P Todos
       = Some Todos # first_seen (filter (\<lambda>b. b \<noteq> None \<and> b \<noteq> Some []) (map marca
           (filter (\<lambda>p. \<exists>s. sku p = Some s \<and> (\<exists>c\<in>set s. \<not> is_whitespace c)) P)))"
    by (simp add: availableBrands_def new_Set_first_seen validSku_iff[abs_def]
        truthy_iff[abs_def])
  have b2: "cat \<noteq> Todos \<longrightarrow>
        availableBrands P cat
          = Some Todos # first_seen (filter (\<lambda>b. b \<noteq> None \<and> b \<noteq> Some []) (map marca
              (filter (\<lambda>p. (\<exists>s. sku p = Some s \<and> (\<exists>c\<in>set s. \<not> is_whitespace c))
                            \<and> categoria p = Some cat) P)))"
    by (simp add: availableBrands_def new_Set_first_seen validSku_iff[abs_def]
        truthy_iff[abs_def] conj_commute)
  have d: "distinct (tl (categories P))" "distinct (tl (availableBrands P cat))"
    by (simp_all add: categories_def availableBrands_def new_Set_first_seen distinct_first_seen)
  have s: "set (tl (categories P))
       = categoria ` {p \<in> set P. \<exists>s. sku p = Some s \<and> (\<exists>c\<in>set s. \<not> is_whitespace c)}"
    by (simp add: c set_first_seen)
  have n: "None \<notin> set (availableBrands P cat)" "Some [] \<notin> set (availableBrands P cat)"
    by (auto simp: availableBrands_def new_Set_first_seen set_first_seen Todos_def)
  have i1: "categories (map (\<lambda>p. p\<lparr>stock := f p\<rparr>) P) = categories P"
    by (simp add: categories_def filter_map comp_def validSku_stock)
  have i2: "availableBrands (map (\<lambda>p. p\<lparr>stock := f p\<rparr>) P) cat = availableBrands P cat"
    by (simp add: availableBrands_def filter_map comp_def validSku_stock)
  show ?thesis
    using c b1 b2 d s n i1 i2 by simp
qed

theorem facet_lists_over_valid_products_witness:
  "''Paletas'' \<noteq> Todos \<and> ''Bolsos'' \<noteq> Todos
   \<and> availableBrands facet_products ''Paletas'' = [Some Todos, Some ''X'']
   \<and> availableBrands facet_products ''Pelotas'' = [Some Todos, Some ''Y'']
   \<and> availableBrands facet_products ''Bolsos'' = [Some Todos]
   \<and> availableBrands facet_products ''Fantasma'' = [Some Todos]
   \<and> availableBrands facet_products Todos = [Some Todos, Some ''X'', Some ''Y'', Some ''Z'']
   \<and> categories facet_products
       = [Some Todos, Some ''Paletas'', Some ''Pelotas'', Some ''Bolsos'', Some ''Accesorios'']
   \<and> Some Todos # first_seen (filter (\<lambda>b. b \<noteq> None \<and> b \<noteq> Some []) (map marca
         (filter (\<lambda>p. (\<exists>s. sku p = Some s \<and> (\<exists>c\<in>set s. \<not> is_whitespace c))
                       \<and> categoria p = Some ''Bolsos'') facet_products)))
       = [Some Todos]"
proof -
  have ne: "''Paletas'' \<noteq> Todos" "''Bolsos'' \<noteq> Todos"
    by (simp_all add: Todos_def)
  have ev: "availableBrands facet_products ''Paletas'' = [Some Todos, Some ''X'']"
    "availableBrands facet_products ''Pelotas'' = [Some Todos, Some ''Y'']"
    "availableBrands facet_products ''Bolsos'' = [Some Todos]"
    "availableBrands facet_products ''Fantasma'' = [Some Todos]"
    "availableBrands facet_products Todos = [Some Todos, Some ''X'', Some ''Y'', Some ''Z'']"
    "categories facet_products
       = [Some Todos, Some ''Paletas'', Some ''Pelotas'', Some ''Bolsos'', Some ''Accesorios'']"
    by code_simp+
  from facet_lists_over_valid_products[of facet_products "''Bolsos''"] ne
  have "availableBrands facet_products ''Bolsos''
          = Some Todos # first_seen (filter (\<lambda>b. b \<noteq> None \<and> b \<noteq> Some []) (map marca
              (filter (\<lambda>p. (\<exists>s. sku p = Some s \<and> (\<exists>c\<in>set s. \<not> is_whitespace c))
                            \<and> categoria p = Some ''Bolsos'') facet_products)))"
    by blast
  with ev have spec: "Some Todos # first_seen (filter (\<lambda>b. b \<noteq> None \<and> b \<noteq> Some []) (map marca
         (filter (\<lambda>p. (\<exists>s. sku p = Some s \<and> (\<exists>c\<in>set s. \<not> is_whitespace c))
                       \<and> categoria p = Some ''Bolsos'') facet_products)))
       = [Some Todos]"
    by simp
  show ?thesis
    using ne ev spec by blast
qed

section \<open>Changing the category\<close>

text \<open>
  Claim C10. The handler of the category select stores the chosen category, sets the brand
  back to the sentinel \<^verbatim>\<open>"Todos"\<close> and empties the search text; the out-of-stock flag and
  the price order stay as they were. So whatever brand was selected before, the sentinel
  is selected afterwards.
\<close>

theorem category_change_resets_brand_and_search:
  "selectedCategory (onCategoryChange v F) = v
   \<and> selectedBrand (onCategoryChange v F) = Todos
   \<and> searchTerm (onCategoryChange v F) = []
   \<and> showOutOfStock (onCategoryChange v F) = showOutOfStock F
   \<and> priceSort (onCategoryChange v F) = priceSort F
   \<and> selectedBrand (onCategoryChange v (F\<lparr>selectedBrand := b\<rparr>)) = Todos"
  by (simp add: onCategoryChange_def)

end
